theory Spec2Isabelle
  imports Complex_Main
begin

section \<open>The epidemic grid: data model\<close>

text \<open>
  The development embeds the classes \<^verbatim>\<open>Person\<close> (Person.hpp) and \<^verbatim>\<open>Population\<close>
  (the version of Population.hpp that declares \<^verbatim>\<open>Counts\<close>, \<^verbatim>\<open>countStates\<close>, \<^verbatim>\<open>_rvh\<close>
  and \<^verbatim>\<open>draw\<close>, which is the one main.cpp compiles against).

  Conventions of the embedding.
  \<^item> A C++ member \<^verbatim>\<open>_x\<close> is the record field \<open>p_x\<close>.
  \<^item> C++ \<^verbatim>\<open>int\<close> is 32 bits wide. An \<^verbatim>\<open>int\<close> value is a HOL integer, and every operation
    of the code that can leave the range (\<^verbatim>\<open>++_t\<close>, the increments of the tallies,
    \<^verbatim>\<open>_n * _n\<close>) is written with the wrap-around \<open>int32\<close>: the two's-complement result that
    the compiled program computes (the language itself leaves signed overflow undefined).
    The loop counters stay between 0 and \<^verbatim>\<open>_n\<close>, and \<^verbatim>\<open>sum\<close> between 0 and 4: they cannot
    overflow; the counters are natural numbers.
  \<^item> The type \<^verbatim>\<open>float\<close> is a type variable \<open>'f\<close> that carries only the syntax of the
    operations the code applies to it (\<open><\<close>, \<open>+\<close>, \<open>-\<close>, \<open>*\<close>, \<open>/\<close>, \<open>1\<close>), with no
    law assumed about them, and a function \<open>rnd\<close> that turns an exact value (an integer
    that is cast, a decimal literal) into a \<^verbatim>\<open>float\<close>. General theorems therefore hold
    for every interpretation of the arithmetic, the binary32 one included. Concrete
    runs are evaluated at type \<open>real\<close> with \<open>rnd\<close> the identity.
  \<^item> The random generator of \<^verbatim>\<open>Update\<close> is the sequence \<open>draws\<close> of the values that the
    successive calls \<^verbatim>\<open>dis(gen)\<close> of one \<^verbatim>\<open>Update\<close> return, with a counter of the calls
    made so far.
  \<^item> \<^verbatim>\<open>std::vector::operator[]\<close> is unchecked: outside the vector the access has no
    defined behaviour, which is the outcome \<open>Undefined\<close>.
\<close>

definition INT_MAX :: int where
  "INT_MAX = 2147483647"

definition INT_MIN :: int where
  "INT_MIN = - 2147483648"

definition int32 :: "int \<Rightarrow> int" where
  "int32 x = (x + 2147483648) mod 4294967296 - 2147483648"

record Person =
  p_state :: string

definition Person_ctor :: Person where
  "Person_ctor = \<lparr>p_state = ''susceptible''\<rparr>"

definition Person_getState :: "Person \<Rightarrow> string" where
  "Person_getState x = p_state x"

definition Person_set_sus :: "Person \<Rightarrow> Person" where
  "Person_set_sus x = x\<lparr>p_state := ''susceptible''\<rparr>"

definition Person_set_inf :: "Person \<Rightarrow> Person" where
  "Person_set_inf x = x\<lparr>p_state := ''infected''\<rparr>"

definition Person_set_rec :: "Person \<Rightarrow> Person" where
  "Person_set_rec x = x\<lparr>p_state := ''recovered''\<rparr>"

definition Person_set_vac :: "Person \<Rightarrow> Person" where
  "Person_set_vac x = x\<lparr>p_state := ''vaccinated''\<rparr>"

type_synonym grid = "Person list list"

record 'f Population =
  p_m :: grid
  p_n :: int
  p_ri :: 'f
  p_rr :: 'f
  p_rm :: 'f
  p_rv :: 'f
  p_rvh :: 'f
  p_t :: int
  p_tv :: int

record Counts =
  susceptible :: int
  infected :: int
  recovered :: int
  vaccinated :: int

definition Counts_ctor :: Counts where
  "Counts_ctor = \<lparr>susceptible = 0, infected = 0, recovered = 0, vaccinated = 0\<rparr>"

datatype exn = length_error | bad_alloc | out_of_range

datatype 'a outcome = Returns 'a | Throws exn | Undefined

section \<open>Construction and accessors\<close>

text \<open>
  \<^verbatim>\<open>explicit Population(int n) : _m(n, std::vector<Person>(n)), _n(n) {}\<close>
  The vector constructor takes a \<^verbatim>\<open>size_type\<close>: a negative \<^verbatim>\<open>n\<close> converts to a size
  above \<^verbatim>\<open>max_size()\<close> and the constructor throws \<^verbatim>\<open>std::length_error\<close>. For \<open>n \<ge> 0\<close> the
  initialiser builds the temporary row \<^verbatim>\<open>std::vector<Person>(n)\<close> and \<open>n\<close> copies of it, which
  takes storage for \<open>n * n + n\<close> persons; when the allocator cannot provide it, the
  constructor throws \<^verbatim>\<open>std::bad_alloc\<close>. The parameter \<open>avail\<close> is the number of persons
  for which the allocator has room at the call (the \<open>n\<close> row headers are not counted).
  With addresses of 64 bits and at least 8 bytes for a person, \<open>avail\<close> is at most \<open>2 ^ 61\<close>,
  less than \<open>2147483647 * 2147483647\<close>. An exception leaves no object behind. There is no
  other test on \<^verbatim>\<open>n\<close>. The other members take their default initialisers.
\<close>

definition Population_ctor ::
  "(real \<Rightarrow> 'f) \<Rightarrow> nat \<Rightarrow> int \<Rightarrow> 'f Population outcome" where
  "Population_ctor rnd avail n =
     (if n < 0 then Throws length_error
      else if int avail < n * n + n then Throws bad_alloc
      else Returns \<lparr>p_m = replicate (nat n) (replicate (nat n) Person_ctor),
                    p_n = n,
                    p_ri = rnd (20 / 100),
                    p_rr = rnd (1 / 20),
                    p_rm = rnd (1 / 200),
                    p_rv = rnd (1 / 1000),
                    p_rvh = rnd (2 / 10),
                    p_t = 0,
                    p_tv = 200\<rparr>)"



text \<open>\<^verbatim>\<open>_m[i][j]\<close>: defined exactly when both subscripts are inside their vectors.\<close>

definition in_grid :: "grid \<Rightarrow> int \<Rightarrow> int \<Rightarrow> bool" where
  "in_grid g i j \<longleftrightarrow>
     0 \<le> i \<and> i < int (length g) \<and> 0 \<le> j \<and> j < int (length (g ! nat i))"

definition set_cell :: "(Person \<Rightarrow> Person) \<Rightarrow> nat \<Rightarrow> nat \<Rightarrow> grid \<Rightarrow> grid" where
  "set_cell f i j g = g[i := (g ! i)[j := f (g ! i ! j)]]"

definition getPerson :: "'f Population \<Rightarrow> int \<Rightarrow> int \<Rightarrow> Person outcome" where
  "getPerson p i j =
     (if in_grid (p_m p) i j then Returns (p_m p ! nat i ! nat j) else Undefined)"

definition getState :: "'f Population \<Rightarrow> int \<Rightarrow> int \<Rightarrow> string outcome" where
  "getState p i j =
     (if in_grid (p_m p) i j then Returns (Person_getState (p_m p ! nat i ! nat j))
      else Undefined)"

definition size_pop :: "'f Population \<Rightarrow> int" where
  "size_pop p = p_n p"

definition set_sus :: "'f Population \<Rightarrow> int \<Rightarrow> int \<Rightarrow> 'f Population outcome" where
  "set_sus p i j =
     (if in_grid (p_m p) i j
      then Returns (p\<lparr>p_m := set_cell Person_set_sus (nat i) (nat j) (p_m p)\<rparr>)
      else Undefined)"

definition set_inf :: "'f Population \<Rightarrow> int \<Rightarrow> int \<Rightarrow> 'f Population outcome" where
  "set_inf p i j =
     (if in_grid (p_m p) i j
      then Returns (p\<lparr>p_m := set_cell Person_set_inf (nat i) (nat j) (p_m p)\<rparr>)
      else Undefined)"

definition set_rec :: "'f Population \<Rightarrow> int \<Rightarrow> int \<Rightarrow> 'f Population outcome" where
  "set_rec p i j =
     (if in_grid (p_m p) i j
      then Returns (p\<lparr>p_m := set_cell Person_set_rec (nat i) (nat j) (p_m p)\<rparr>)
      else Undefined)"

definition set_vac :: "'f Population \<Rightarrow> int \<Rightarrow> int \<Rightarrow> 'f Population outcome" where
  "set_vac p i j =
     (if in_grid (p_m p) i j
      then Returns (p\<lparr>p_m := set_cell Person_set_vac (nat i) (nat j) (p_m p)\<rparr>)
      else Undefined)"

section \<open>countStates\<close>

text \<open>The body of the inner loop: one branch of the if / else-if chain, or none.\<close>

definition tally :: "string \<Rightarrow> Counts \<Rightarrow> Counts" where
  "tally s c =
     (if s = ''susceptible'' then c\<lparr>susceptible := int32 (susceptible c + 1)\<rparr>
      else if s = ''infected'' then c\<lparr>infected := int32 (infected c + 1)\<rparr>
      else if s = ''recovered'' then c\<lparr>recovered := int32 (recovered c + 1)\<rparr>
      else if s = ''vaccinated'' then c\<lparr>vaccinated := int32 (vaccinated c + 1)\<rparr>
      else c)"

function count_cols :: "'f Population \<Rightarrow> nat \<Rightarrow> nat \<Rightarrow> Counts \<Rightarrow> Counts" where
  "count_cols p i j c =
     (if int j < p_n p
      then count_cols p i (j + 1) (tally (Person_getState (p_m p ! i ! j)) c)
      else c)"
  by pat_completeness auto
termination
  by (relation "measure (\<lambda>(p, i, j, c). nat (p_n p) - j)") auto

function count_rows :: "'f Population \<Rightarrow> nat \<Rightarrow> Counts \<Rightarrow> Counts" where
  "count_rows p i c =
     (if int i < p_n p then count_rows p (i + 1) (count_cols p i 0 c) else c)"
  by pat_completeness auto
termination
  by (relation "measure (\<lambda>(p, i, c). nat (p_n p) - i)") auto

definition countStates :: "'f Population \<Rightarrow> Counts" where
  "countStates p = count_rows p 0 Counts_ctor"

section \<open>Update\<close>

text \<open>The four guarded increments of \<^verbatim>\<open>sum\<close>, in the order of the source.\<close>

definition infected_neighbours :: "int \<Rightarrow> grid \<Rightarrow> nat \<Rightarrow> nat \<Rightarrow> int" where
  "infected_neighbours n mOld i j =
     (let sum0 = 0;
          sum1 = (if int i - 1 \<ge> 0 \<and> Person_getState (mOld ! (i - 1) ! j) = ''infected''
                  then sum0 + 1 else sum0);
          sum2 = (if int j - 1 \<ge> 0 \<and> Person_getState (mOld ! i ! (j - 1)) = ''infected''
                  then sum1 + 1 else sum1);
          sum3 = (if int i + 1 < n \<and> Person_getState (mOld ! (i + 1) ! j) = ''infected''
                  then sum2 + 1 else sum2);
          sum4 = (if int j + 1 < n \<and> Person_getState (mOld ! i ! (j + 1)) = ''infected''
                  then sum3 + 1 else sum3)
      in sum4)"

text \<open>
  The body of the inner loop of \<^verbatim>\<open>Update\<close> after the draw: three consecutive \<^verbatim>\<open>if\<close>
  statements that test \<^verbatim>\<open>mOld[i][j]\<close> and write \<^verbatim>\<open>_m[i][j]\<close>. The record \<open>p\<close> is the
  object after \<^verbatim>\<open>++_t\<close>.
\<close>

definition update_cell ::
  "(real \<Rightarrow> 'f) \<Rightarrow> ('f::{ord,plus,times}) Population \<Rightarrow> bool \<Rightarrow> grid \<Rightarrow> 'f \<Rightarrow>
     nat \<Rightarrow> nat \<Rightarrow> grid \<Rightarrow> grid" where
  "update_cell rnd p allowVaccination mOld seed i j m =
     (let m1 =
        (if Person_getState (mOld ! i ! j) = ''susceptible''
         then (let sum = infected_neighbours (p_n p) mOld i j;
                   chance_inf = rnd (of_int sum) * p_ri p
               in if seed < chance_inf then set_cell Person_set_inf i j m
                  else if p_t p \<ge> p_tv p \<and> allowVaccination
                  then (if chance_inf < seed \<and> seed < chance_inf + p_rv p
                        then set_cell Person_set_vac i j m else m)
                  else m)
         else m);
          m2 =
        (if Person_getState (mOld ! i ! j) = ''infected''
         then (if seed < p_rr p then set_cell Person_set_rec i j m1 else m1)
         else m1);
          m3 =
        (if Person_getState (mOld ! i ! j) = ''recovered''
         then (if seed < p_rm p then set_cell Person_set_sus i j m2
               else if p_t p > p_tv p \<and> allowVaccination
               then (if p_rm p < seed \<and> seed < p_rm p + p_rv p
                     then set_cell Person_set_vac i j m2 else m2)
               else m2)
         else m2)
      in m3)"

text \<open>
  The loops thread the matrix being written and the number \<open>k\<close> of draws made so far;
  the draw of an iteration is \<open>draws k\<close>.
\<close>

function update_cols ::
  "(real \<Rightarrow> 'f) \<Rightarrow> ('f::{ord,plus,times}) Population \<Rightarrow> bool \<Rightarrow> grid \<Rightarrow> (nat \<Rightarrow> 'f) \<Rightarrow>
     nat \<Rightarrow> nat \<Rightarrow> nat \<Rightarrow> grid \<Rightarrow> grid \<times> nat" where
  "update_cols rnd p allowVaccination mOld draws i j k m =
     (if int j < p_n p
      then update_cols rnd p allowVaccination mOld draws i (j + 1) (k + 1)
             (update_cell rnd p allowVaccination mOld (draws k) i j m)
      else (m, k))"
  by pat_completeness auto
termination
  by (relation "measure (\<lambda>(rnd, p, a, mOld, draws, i, j, k, m). nat (p_n p) - j)") auto

function update_rows ::
  "(real \<Rightarrow> 'f) \<Rightarrow> ('f::{ord,plus,times}) Population \<Rightarrow> bool \<Rightarrow> grid \<Rightarrow> (nat \<Rightarrow> 'f) \<Rightarrow>
     nat \<Rightarrow> nat \<Rightarrow> grid \<Rightarrow> grid \<times> nat" where
  "update_rows rnd p allowVaccination mOld draws i k m =
     (if int i < p_n p
      then (case update_cols rnd p allowVaccination mOld draws i 0 k m of
              (m', k') \<Rightarrow> update_rows rnd p allowVaccination mOld draws (i + 1) k' m')
      else (m, k))"
  by pat_completeness auto
termination
  by (relation "measure (\<lambda>(rnd, p, a, mOld, draws, i, k, m). nat (p_n p) - i)") auto

text \<open>
  \<^verbatim>\<open>allowVaccination\<close> as \<^verbatim>\<open>Update\<close> computes it, from the tallies of the object it is
  called on.
\<close>

definition allowVaccination ::
  "(real \<Rightarrow> 'f) \<Rightarrow> ('f::{ord,minus,inverse,one}) Population \<Rightarrow> bool" where
  "allowVaccination rnd p =
     (let c = countStates p;
          total = int32 (p_n p * p_n p);
          fracVaccinated = rnd (of_int (vaccinated c)) / rnd (of_int total)
      in fracVaccinated < 1 - p_rvh p)"

definition Update ::
  "(real \<Rightarrow> 'f) \<Rightarrow> (nat \<Rightarrow> 'f) \<Rightarrow> ('f::{ord,plus,minus,times,inverse,one}) Population \<Rightarrow>
     'f Population" where
  "Update rnd draws p =
     (let p1 = p\<lparr>p_t := int32 (p_t p + 1)\<rparr>;
          allow = allowVaccination rnd p1;
          mOld = p_m p1
      in p1\<lparr>p_m := fst (update_rows rnd p1 allow mOld draws 0 0 (p_m p1))\<rparr>)"

section \<open>The driver: repeated calls\<close>

text \<open>
  main.cpp constructs the population, calls \<^verbatim>\<open>set_inf\<close> on chosen cells and then calls
  \<^verbatim>\<open>Update\<close> once per step. \<open>run\<close> is a sequence of \<^verbatim>\<open>Update\<close> calls, one sequence of
  draws per call (each call builds a generator of its own); \<open>perform_all\<close> is any
  sequence of calls of the mutators and of \<^verbatim>\<open>Update\<close>, which stops at the first call
  that has no defined behaviour.
\<close>

fun run ::
  "(real \<Rightarrow> 'f) \<Rightarrow> (nat \<Rightarrow> 'f) list \<Rightarrow> ('f::{ord,plus,minus,times,inverse,one}) Population \<Rightarrow>
     'f Population" where
  "run rnd [] p = p"
| "run rnd (draws # ds) p = run rnd ds (Update rnd draws p)"

datatype 'f action =
  Force_sus int int | Force_inf int int | Force_rec int int | Force_vac int int
| Advance "nat \<Rightarrow> 'f"

fun perform ::
  "(real \<Rightarrow> 'f) \<Rightarrow> 'f action \<Rightarrow> ('f::{ord,plus,minus,times,inverse,one}) Population \<Rightarrow>
     'f Population outcome" where
  "perform rnd (Force_sus i j) p = set_sus p i j"
| "perform rnd (Force_inf i j) p = set_inf p i j"
| "perform rnd (Force_rec i j) p = set_rec p i j"
| "perform rnd (Force_vac i j) p = set_vac p i j"
| "perform rnd (Advance draws) p = Returns (Update rnd draws p)"

fun perform_all ::
  "(real \<Rightarrow> 'f) \<Rightarrow> 'f action list \<Rightarrow> ('f::{ord,plus,minus,times,inverse,one}) Population \<Rightarrow>
     'f Population outcome" where
  "perform_all rnd [] p = Returns p"
| "perform_all rnd (a # as) p =
     (case perform rnd a p of
        Returns p' \<Rightarrow> perform_all rnd as p'
      | Throws e \<Rightarrow> Throws e
      | Undefined \<Rightarrow> Undefined)"

section \<open>Notions used to state the properties\<close>

text \<open>
  The shape every object built by the constructor has and every member function keeps:
  \<^verbatim>\<open>_m\<close> is an \<^verbatim>\<open>_n\<close> by \<^verbatim>\<open>_n\<close> matrix.
\<close>

definition square :: "nat \<Rightarrow> grid \<Rightarrow> bool" where
  "square N g \<longleftrightarrow> length g = N \<and> (\<forall>row \<in> set g. length row = N)"

definition well_formed :: "'f Population \<Rightarrow> bool" where
  "well_formed p \<longleftrightarrow> 0 \<le> p_n p \<and> square (nat (p_n p)) (p_m p)"

text \<open>The four strings that the mutators of \<^verbatim>\<open>Person\<close> can store.\<close>

definition known_state :: "string \<Rightarrow> bool" where
  "known_state s \<longleftrightarrow>
     s = ''susceptible'' \<or> s = ''infected'' \<or> s = ''recovered'' \<or> s = ''vaccinated''"



text \<open>
  \<open>tally_of s c\<close> is the tally that \<^verbatim>\<open>countStates\<close> keeps for the state \<open>s\<close>, and
  \<open>cells_in_state s N g\<close> the number of cells of the \<open>N\<close> by \<open>N\<close> grid \<open>g\<close> that are in it.
\<close>

definition tally_of :: "string \<Rightarrow> Counts \<Rightarrow> int" where
  "tally_of s c =
     (if s = ''susceptible'' then susceptible c
      else if s = ''infected'' then infected c
      else if s = ''recovered'' then recovered c
      else vaccinated c)"

definition cells_in_state :: "string \<Rightarrow> nat \<Rightarrow> grid \<Rightarrow> int" where
  "cells_in_state s N g = (\<Sum>a = 0..<N. \<Sum>b = 0..<N. if p_state (g ! a ! b) = s then 1 else 0)"


text \<open>
  What one iteration of the loops of \<^verbatim>\<open>Update\<close> does to the person it visits: the three
  \<^verbatim>\<open>if\<close> statements read as one case distinction on the state in \<^verbatim>\<open>mOld\<close>. Lemma
  \<open>update_cell_eq\<close> relates it to \<open>update_cell\<close>.
\<close>

definition cell_step ::
  "(real \<Rightarrow> 'f) \<Rightarrow> ('f::{ord,plus,times}) Population \<Rightarrow> bool \<Rightarrow> grid \<Rightarrow> 'f \<Rightarrow>
     nat \<Rightarrow> nat \<Rightarrow> Person \<Rightarrow> Person" where
  "cell_step rnd p allow mOld seed i j x =
     (let s = Person_getState (mOld ! i ! j);
          chance_inf = rnd (of_int (infected_neighbours (p_n p) mOld i j)) * p_ri p
      in if s = ''susceptible''
         then (if seed < chance_inf then Person_set_inf x
               else if p_t p \<ge> p_tv p \<and> allow \<and> chance_inf < seed \<and> seed < chance_inf + p_rv p
               then Person_set_vac x else x)
         else if s = ''infected''
         then (if seed < p_rr p then Person_set_rec x else x)
         else if s = ''recovered''
         then (if seed < p_rm p then Person_set_sus x
               else if p_t p > p_tv p \<and> allow \<and> p_rm p < seed \<and> seed < p_rm p + p_rv p
               then Person_set_vac x else x)
         else x)"

text \<open>
  What a mutator may change: the state of the one cell it is called on.
\<close>

definition unchanged_but ::
  "'f Population \<Rightarrow> 'f Population \<Rightarrow> int \<Rightarrow> int \<Rightarrow> bool" where
  "unchanged_but p p' i j \<longleftrightarrow>
     p_t p' = p_t p \<and> p_n p' = p_n p \<and> p_tv p' = p_tv p \<and>
     p_ri p' = p_ri p \<and> p_rr p' = p_rr p \<and> p_rm p' = p_rm p \<and>
     p_rv p' = p_rv p \<and> p_rvh p' = p_rvh p \<and>
     (\<forall>a b. (a, b) \<noteq> (i, j) \<longrightarrow> getState p' a b = getState p a b)"

section \<open>Concrete inputs\<close>

text \<open>
  Concrete runs are evaluated at type \<open>real\<close>, with \<open>rnd = exact\<close>, the conversion that
  rounds nothing. \<open>defaults g n t\<close> is the object whose parameters have the values of the
  default member initialisers, whose matrix is \<open>g\<close> and whose day counter is \<open>t\<close>;
  \<open>const_draws x\<close> is a generator that returns \<open>x\<close> at every call. The persons \<open>pS\<close>, \<open>pI\<close>,
  \<open>pR\<close> and \<open>pV\<close> are in the four states.
\<close>

definition exact :: "real \<Rightarrow> real" where
  "exact x = x"

definition const_draws :: "'f \<Rightarrow> nat \<Rightarrow> 'f" where
  "const_draws x k = x"

definition defaults :: "grid \<Rightarrow> int \<Rightarrow> int \<Rightarrow> real Population" where
  "defaults g n t =
     \<lparr>p_m = g, p_n = n, p_ri = 1 / 5, p_rr = 1 / 20, p_rm = 1 / 200, p_rv = 1 / 1000,
      p_rvh = 1 / 5, p_t = t, p_tv = 200\<rparr>"

definition pS :: Person where "pS = \<lparr>p_state = ''susceptible''\<rparr>"
definition pI :: Person where "pI = \<lparr>p_state = ''infected''\<rparr>"
definition pR :: Person where "pR = \<lparr>p_state = ''recovered''\<rparr>"
definition pV :: Person where "pV = \<lparr>p_state = ''vaccinated''\<rparr>"


text \<open>\<open>draws_upto m x y\<close> returns \<open>x\<close> at the first \<open>m\<close> calls and \<open>y\<close> afterwards.\<close>

definition draws_upto :: "nat \<Rightarrow> 'f \<Rightarrow> 'f \<Rightarrow> nat \<Rightarrow> 'f" where
  "draws_upto m x y k = (if k < m then x else y)"

section \<open>The neighbourhood, in the words of the specification\<close>

text \<open>
  The neighbours of a cell are the cells above, to the left, below and to the right of it
  that lie inside the grid; \<open>infected_count\<close> is the number of them that are infected.
  Lemma \<open>infected_neighbours_count_nat\<close> shows that the four guarded increments of
  \<^verbatim>\<open>Update\<close> compute it.
\<close>

definition neighbour_cells :: "int \<Rightarrow> int \<Rightarrow> int \<Rightarrow> (int \<times> int) list" where
  "neighbour_cells n i j =
     filter (\<lambda>(a, b). 0 \<le> a \<and> a < n \<and> 0 \<le> b \<and> b < n)
       [(i - 1, j), (i, j - 1), (i + 1, j), (i, j + 1)]"

definition infected_count :: "int \<Rightarrow> grid \<Rightarrow> int \<Rightarrow> int \<Rightarrow> int" where
  "infected_count n g i j =
     int (length (filter (\<lambda>(a, b). Person_getState (g ! nat a ! nat b) = ''infected'')
                    (neighbour_cells n i j)))"

section \<open>The loops, characterised\<close>

declare count_cols.simps [simp del] count_rows.simps [simp del]
  update_cols.simps [simp del] update_rows.simps [simp del]

lemma square_nth: "square N g \<Longrightarrow> a < N \<Longrightarrow> length (g ! a) = N"
  using nth_mem [of a g] by (auto simp: square_def)

lemma square_set_cell: "square N g \<Longrightarrow> square N (set_cell f i j g)"
proof (cases "i < length g")
  case True
  assume "square N g"
  with True show ?thesis
    by (auto simp: square_def set_cell_def dest!: set_update_subset_insert [THEN subsetD])
next
  case False
  assume "square N g"
  with False show ?thesis by (simp add: set_cell_def list_update_beyond)
qed

lemma set_cell_nth:
  "square N g \<Longrightarrow> a < N \<Longrightarrow> b < N \<Longrightarrow> i < N \<Longrightarrow> j < N \<Longrightarrow>
   set_cell f i j g ! a ! b = (if a = i \<and> b = j then f (g ! i ! j) else g ! a ! b)"
  using square_nth [of N g i] by (auto simp: square_def set_cell_def nth_list_update)

lemma update_cell_eq:
  "square N m \<Longrightarrow> i < N \<Longrightarrow> j < N \<Longrightarrow>
   update_cell rnd p allow mOld seed i j m = set_cell (cell_step rnd p allow mOld seed i j) i j m"
  by (simp add: update_cell_def cell_step_def Let_def set_cell_def square_def
      Person_getState_def)

lemma update_cols_spec:
  "square N m \<Longrightarrow> p_n p = int N \<Longrightarrow> i < N \<Longrightarrow> j \<le> N \<Longrightarrow>
   square N (fst (update_cols rnd p al mOld draws i j k m)) \<and>
   snd (update_cols rnd p al mOld draws i j k m) = k + (N - j) \<and>
   (\<forall>a<N. \<forall>b<N. fst (update_cols rnd p al mOld draws i j k m) ! a ! b =
      (if a = i \<and> j \<le> b then cell_step rnd p al mOld (draws (k + (b - j))) i b (m ! a ! b)
       else m ! a ! b))"
proof (induction rnd p al mOld draws i j k m rule: update_cols.induct)
  case (1 rnd p al mOld draws i j k m)
  show ?case
  proof (cases "j < N")
    case False
    with "1.prems" have "j = N" by simp
    moreover from False "1.prems" have "update_cols rnd p al mOld draws i j k m = (m, k)"
      by (subst update_cols.simps) simp
    ultimately show ?thesis using "1.prems" by simp
  next
    case True
    let ?m1 = "update_cell rnd p al mOld (draws k) i j m"
    have m1: "?m1 = set_cell (cell_step rnd p al mOld (draws k) i j) i j m"
      using "1.prems" True by (simp add: update_cell_eq)
    have sq1: "square N ?m1"
      using "1.prems" by (simp add: m1 square_set_cell)
    have unf: "update_cols rnd p al mOld draws i j k m =
               update_cols rnd p al mOld draws i (j + 1) (k + 1) ?m1"
      using True "1.prems" by (subst update_cols.simps) simp
    have IH: "square N (fst (update_cols rnd p al mOld draws i (j + 1) (k + 1) ?m1)) \<and>
      snd (update_cols rnd p al mOld draws i (j + 1) (k + 1) ?m1) = k + 1 + (N - (j + 1)) \<and>
      (\<forall>a<N. \<forall>b<N. fst (update_cols rnd p al mOld draws i (j + 1) (k + 1) ?m1) ! a ! b =
        (if a = i \<and> j + 1 \<le> b
         then cell_step rnd p al mOld (draws (k + 1 + (b - (j + 1)))) i b (?m1 ! a ! b)
         else ?m1 ! a ! b))"
      using "1.IH" [OF _ sq1] "1.prems" True by simp
    have cellm1: "\<And>a b. a < N \<Longrightarrow> b < N \<Longrightarrow>
        ?m1 ! a ! b = (if a = i \<and> b = j then cell_step rnd p al mOld (draws k) i j (m ! i ! j)
                       else m ! a ! b)"
      using "1.prems" True by (simp add: m1 set_cell_nth [of N])
    have idx: "\<And>b. Suc j \<le> b \<Longrightarrow> Suc (k + b - Suc j) = k + b - j" by arith
    show ?thesis
      unfolding unf using IH True
      by (auto simp: cellm1 idx)
  qed
qed

lemma update_rows_spec:
  "square N m \<Longrightarrow> p_n p = int N \<Longrightarrow> i \<le> N \<Longrightarrow>
   square N (fst (update_rows rnd p al mOld draws i k m)) \<and>
   snd (update_rows rnd p al mOld draws i k m) = k + (N - i) * N \<and>
   (\<forall>a<N. \<forall>b<N. fst (update_rows rnd p al mOld draws i k m) ! a ! b =
      (if i \<le> a then cell_step rnd p al mOld (draws (k + (a - i) * N + b)) a b (m ! a ! b)
       else m ! a ! b))"
proof (induction rnd p al mOld draws i k m rule: update_rows.induct)
  case (1 rnd p al mOld draws i k m)
  show ?case
  proof (cases "i < N")
    case False
    with "1.prems" have "i = N" by simp
    moreover from False "1.prems" have "update_rows rnd p al mOld draws i k m = (m, k)"
      by (subst update_rows.simps) simp
    ultimately show ?thesis using "1.prems" by simp
  next
    case True
    obtain m1 k1 where cols: "update_cols rnd p al mOld draws i 0 k m = (m1, k1)"
      by (cases "update_cols rnd p al mOld draws i 0 k m")
    from update_cols_spec [of N m p i 0 rnd al mOld draws k] "1.prems" True cols
    have sq1: "square N m1" and k1: "k1 = k + N"
      and cell1: "\<And>a b. a < N \<Longrightarrow> b < N \<Longrightarrow> m1 ! a ! b =
        (if a = i then cell_step rnd p al mOld (draws (k + b)) i b (m ! a ! b) else m ! a ! b)"
      by simp_all
    have unf: "update_rows rnd p al mOld draws i k m =
               update_rows rnd p al mOld draws (i + 1) k1 m1"
      using True "1.prems" cols by (subst update_rows.simps) simp
    have IH: "square N (fst (update_rows rnd p al mOld draws (i + 1) k1 m1)) \<and>
      snd (update_rows rnd p al mOld draws (i + 1) k1 m1) = k1 + (N - (i + 1)) * N \<and>
      (\<forall>a<N. \<forall>b<N. fst (update_rows rnd p al mOld draws (i + 1) k1 m1) ! a ! b =
        (if i + 1 \<le> a
         then cell_step rnd p al mOld (draws (k1 + (a - (i + 1)) * N + b)) a b (m1 ! a ! b)
         else m1 ! a ! b))"
      using "1.IH" [OF _ cols [symmetric] sq1] "1.prems" True by simp
    have cnt: "k1 + (N - (i + 1)) * N = k + (N - i) * N"
    proof -
      from True have "N - i = Suc (N - (i + 1))" by simp
      then show ?thesis by (simp add: k1)
    qed
    have idx: "\<And>a. i + 1 \<le> a \<Longrightarrow> k1 + (a - (i + 1)) * N = k + (a - i) * N"
    proof -
      fix a assume "i + 1 \<le> a"
      then have "a - i = Suc (a - (i + 1))" by simp
      then show "k1 + (a - (i + 1)) * N = k + (a - i) * N" by (simp add: k1)
    qed
    show ?thesis
      unfolding unf
    proof (intro conjI allI impI)
      show "square N (fst (update_rows rnd p al mOld draws (i + 1) k1 m1))" using IH by simp
      show "snd (update_rows rnd p al mOld draws (i + 1) k1 m1) = k + (N - i) * N"
        using IH cnt by simp
    next
      fix a b assume ab: "a < N" "b < N"
      from IH ab have r: "fst (update_rows rnd p al mOld draws (i + 1) k1 m1) ! a ! b =
        (if i + 1 \<le> a
         then cell_step rnd p al mOld (draws (k1 + (a - (i + 1)) * N + b)) a b (m1 ! a ! b)
         else m1 ! a ! b)" by blast
      consider "a < i" | "a = i" | "i + 1 \<le> a" by linarith
      then show "fst (update_rows rnd p al mOld draws (i + 1) k1 m1) ! a ! b =
        (if i \<le> a then cell_step rnd p al mOld (draws (k + (a - i) * N + b)) a b (m ! a ! b)
         else m ! a ! b)"
      proof cases
        case 1 then show ?thesis using r cell1 [OF ab] by simp
      next
        case 2 then show ?thesis using r cell1 [OF ab] by simp
      next
        case 3 then show ?thesis using r cell1 [OF ab] idx [OF 3] by simp
      qed
    qed
  qed
qed

text \<open>The wrap-around.\<close>

lemma int32_id: "INT_MIN \<le> x \<Longrightarrow> x \<le> INT_MAX \<Longrightarrow> int32 x = x"
  by (simp add: int32_def INT_MIN_def INT_MAX_def)

lemma int32_range: "INT_MIN \<le> int32 x \<and> int32 x \<le> INT_MAX"
proof -
  have "0 \<le> (x + 2147483648) mod 4294967296" "(x + 2147483648) mod 4294967296 < 4294967296"
    by simp_all
  then show ?thesis by (simp add: int32_def INT_MIN_def INT_MAX_def)
qed

lemma int32_idem: "int32 (int32 x) = int32 x"
  using int32_range [of x] by (simp add: int32_id)

lemma int32_add_left: "int32 (int32 a + b) = int32 (a + b)"
proof -
  have "(int32 a + b + 2147483648) mod 4294967296 =
        ((a + 2147483648) mod 4294967296 + b) mod 4294967296"
    by (simp add: int32_def)
  also have "\<dots> = (a + 2147483648 + b) mod 4294967296" by (rule mod_add_left_eq)
  finally show ?thesis by (simp add: int32_def add.assoc add.commute add.left_commute)
qed

lemma int32_0: "int32 0 = 0"
  by (simp add: int32_def)

text \<open>The tallies.\<close>

lemma tally_of_tally:
  "known_state s \<Longrightarrow>
   tally_of s (tally st c) = (if st = s then int32 (tally_of s c + 1) else tally_of s c)"
  by (auto simp: tally_of_def tally_def known_state_def)

lemma count_cols_spec:
  "p_n p = int N \<Longrightarrow> j \<le> N \<Longrightarrow> known_state s \<Longrightarrow> int32 (tally_of s c) = tally_of s c \<Longrightarrow>
   tally_of s (count_cols p i j c) =
     int32 (tally_of s c + (\<Sum>b = j..<N. if p_state (p_m p ! i ! b) = s then 1 else 0))"
proof (induction p i j c rule: count_cols.induct)
  case (1 p i j c)
  show ?case
  proof (cases "j < N")
    case False
    with "1.prems" have "count_cols p i j c = c" by (subst count_cols.simps) simp
    with False "1.prems" show ?thesis by simp
  next
    case True
    let ?st = "Person_getState (p_m p ! i ! j)"
    let ?c1 = "tally ?st c"
    have unf: "count_cols p i j c = count_cols p i (j + 1) ?c1"
      using True "1.prems" by (subst count_cols.simps) simp
    have t1: "tally_of s ?c1 = (if ?st = s then int32 (tally_of s c + 1) else tally_of s c)"
      using "1.prems"(3) by (rule tally_of_tally)
    then have r1: "int32 (tally_of s ?c1) = tally_of s ?c1"
      using "1.prems"(4) by (simp add: int32_idem)
    have IH: "tally_of s (count_cols p i (j + 1) ?c1) =
        int32 (tally_of s ?c1 + (\<Sum>b = j + 1..<N. if p_state (p_m p ! i ! b) = s then 1 else 0))"
      using "1.IH" [OF _ "1.prems"(1) _ "1.prems"(3) r1] True "1.prems"(1) by simp
    have split: "\<And>g :: nat \<Rightarrow> int. sum g {j..<N} = g j + sum g {j + 1..<N}"
      using True by (simp add: sum.atLeast_Suc_lessThan)
    show ?thesis
    proof (cases "?st = s")
      case True
      then have "tally_of s (count_cols p i (j + 1) ?c1) =
          int32 (tally_of s c + 1 +
            (\<Sum>b = j + 1..<N. if p_state (p_m p ! i ! b) = s then 1 else 0))"
        unfolding IH t1 by (simp add: int32_add_left)
      with True show ?thesis
        unfolding unf by (simp add: split Person_getState_def add.assoc)
    next
      case False
      then show ?thesis
        unfolding unf IH t1 by (simp add: split Person_getState_def)
    qed
  qed
qed

lemma count_cols_fixed:
  "int32 (tally_of s c) = tally_of s c \<Longrightarrow> known_state s \<Longrightarrow>
   int32 (tally_of s (count_cols p i j c)) = tally_of s (count_cols p i j c)"
proof (induction p i j c rule: count_cols.induct)
  case (1 p i j c)
  show ?case
  proof (cases "int j < p_n p")
    case False
    then have "count_cols p i j c = c" by (subst count_cols.simps) simp
    with "1.prems" show ?thesis by simp
  next
    case True
    let ?c1 = "tally (Person_getState (p_m p ! i ! j)) c"
    have unf: "count_cols p i j c = count_cols p i (j + 1) ?c1"
      using True by (subst count_cols.simps) simp
    have "int32 (tally_of s ?c1) = tally_of s ?c1"
      using "1.prems" by (simp add: tally_of_tally int32_idem)
    from "1.IH" [OF True this "1.prems"(2)] show ?thesis unfolding unf .
  qed
qed

lemma count_rows_spec:
  "p_n p = int N \<Longrightarrow> i \<le> N \<Longrightarrow> known_state s \<Longrightarrow> int32 (tally_of s c) = tally_of s c \<Longrightarrow>
   tally_of s (count_rows p i c) =
     int32 (tally_of s c +
       (\<Sum>a = i..<N. \<Sum>b = 0..<N. if p_state (p_m p ! a ! b) = s then 1 else 0))"
proof (induction p i c rule: count_rows.induct)
  case (1 p i c)
  show ?case
  proof (cases "i < N")
    case False
    with "1.prems" have "count_rows p i c = c" by (subst count_rows.simps) simp
    with False "1.prems" show ?thesis by simp
  next
    case True
    let ?c1 = "count_cols p i 0 c"
    have unf: "count_rows p i c = count_rows p (i + 1) ?c1"
      using True "1.prems" by (subst count_rows.simps) simp
    have C: "tally_of s ?c1 =
        int32 (tally_of s c + (\<Sum>b = 0..<N. if p_state (p_m p ! i ! b) = s then 1 else 0))"
      using "1.prems" by (intro count_cols_spec) simp_all
    have r1: "int32 (tally_of s ?c1) = tally_of s ?c1"
      using "1.prems"(4,3) by (rule count_cols_fixed)
    have IH: "tally_of s (count_rows p (i + 1) ?c1) =
        int32 (tally_of s ?c1 +
          (\<Sum>a = i + 1..<N. \<Sum>b = 0..<N. if p_state (p_m p ! a ! b) = s then 1 else 0))"
      using "1.IH" [OF _ "1.prems"(1) _ "1.prems"(3) r1] True "1.prems"(1) by simp
    have split: "\<And>g :: nat \<Rightarrow> int. sum g {i..<N} = g i + sum g {i + 1..<N}"
      using True by (simp add: sum.atLeast_Suc_lessThan)
    show ?thesis
      unfolding unf IH C by (simp add: int32_add_left split add.assoc)
  qed
qed

lemma tally_of_countStates:
  "p_n p = int N \<Longrightarrow> known_state s \<Longrightarrow>
   tally_of s (countStates p) = int32 (cells_in_state s N (p_m p))"
  using count_rows_spec [of p N 0 s Counts_ctor]
  by (simp add: countStates_def cells_in_state_def Counts_ctor_def tally_of_def int32_0)

lemma vaccinated_countStates:
  "p_n p = int N \<Longrightarrow>
   vaccinated (countStates p) = int32 (cells_in_state ''vaccinated'' N (p_m p))"
  using tally_of_countStates [of p N "''vaccinated''"]
  by (simp add: tally_of_def known_state_def)

lemma vaccinated_countStates_cong:
  assumes "p_n p = int N" "p_n q = int N"
    and "\<And>a b. a < N \<Longrightarrow> b < N \<Longrightarrow>
           (p_state (p_m p ! a ! b) = ''vaccinated'') = (p_state (p_m q ! a ! b) = ''vaccinated'')"
  shows "vaccinated (countStates p) = vaccinated (countStates q)"
proof -
  have "cells_in_state ''vaccinated'' N (p_m p) = cells_in_state ''vaccinated'' N (p_m q)"
    unfolding cells_in_state_def by (intro sum.cong refl) (simp add: assms(3))
  then show ?thesis
    by (simp add: vaccinated_countStates [OF assms(1)] vaccinated_countStates [OF assms(2)])
qed

lemma allowVaccination_cong:
  assumes "p_n p = int N" "p_n q = int N" "p_rvh q = p_rvh p"
    and "\<And>a b. a < N \<Longrightarrow> b < N \<Longrightarrow>
           (p_state (p_m p ! a ! b) = ''vaccinated'') = (p_state (p_m q ! a ! b) = ''vaccinated'')"
  shows "allowVaccination rnd q = allowVaccination rnd p"
  using vaccinated_countStates_cong [OF assms(1,2,4)] assms(1,2,3)
  by (simp add: allowVaccination_def)


lemma Update_spec:
  assumes "well_formed p"
  shows "well_formed (Update rnd draws p)"
    and "p_t (Update rnd draws p) = int32 (p_t p + 1)"
    and "p_n (Update rnd draws p) = p_n p"
    and "p_tv (Update rnd draws p) = p_tv p"
    and "p_ri (Update rnd draws p) = p_ri p"
    and "p_rr (Update rnd draws p) = p_rr p"
    and "p_rm (Update rnd draws p) = p_rm p"
    and "p_rv (Update rnd draws p) = p_rv p"
    and "p_rvh (Update rnd draws p) = p_rvh p"
    and "\<And>i j. i < nat (p_n p) \<Longrightarrow> j < nat (p_n p) \<Longrightarrow>
           p_m (Update rnd draws p) ! i ! j =
             cell_step rnd (p\<lparr>p_t := int32 (p_t p + 1)\<rparr>) (allowVaccination rnd p) (p_m p)
               (draws (i * nat (p_n p) + j)) i j (p_m p ! i ! j)"
    and "snd (update_rows rnd (p\<lparr>p_t := int32 (p_t p + 1)\<rparr>) (allowVaccination rnd p) (p_m p) draws 0 0 (p_m p))
           = nat (p_n p) * nat (p_n p)"
proof -
  let ?N = "nat (p_n p)"
  let ?p1 = "p\<lparr>p_t := int32 (p_t p + 1)\<rparr>"
  from assms have n: "p_n p = int ?N" and sq: "square ?N (p_m p)"
    by (simp_all add: well_formed_def)
  have al: "allowVaccination rnd ?p1 = allowVaccination rnd p"
    by (rule allowVaccination_cong [of p ?N]) (use n in simp_all)
  have U: "Update rnd draws p =
        ?p1\<lparr>p_m := fst (update_rows rnd ?p1 (allowVaccination rnd p) (p_m p) draws 0 0 (p_m p))\<rparr>"
    by (simp add: Update_def Let_def al)
  note R = update_rows_spec [of ?N "p_m p" ?p1 0 rnd "allowVaccination rnd p" "p_m p" draws 0]
  from R sq n
  have R1: "square ?N (fst (update_rows rnd ?p1 (allowVaccination rnd p) (p_m p) draws 0 0 (p_m p)))"
    and R2: "snd (update_rows rnd ?p1 (allowVaccination rnd p) (p_m p) draws 0 0 (p_m p)) = ?N * ?N"
    and R3: "\<And>a b. a < ?N \<Longrightarrow> b < ?N \<Longrightarrow>
       fst (update_rows rnd ?p1 (allowVaccination rnd p) (p_m p) draws 0 0 (p_m p)) ! a ! b =
       cell_step rnd ?p1 (allowVaccination rnd p) (p_m p) (draws (a * ?N + b)) a b (p_m p ! a ! b)"
    by simp_all
  show "well_formed (Update rnd draws p)" using assms R1 by (simp add: U well_formed_def)
  show "p_t (Update rnd draws p) = int32 (p_t p + 1)" by (simp add: U)
  show "p_n (Update rnd draws p) = p_n p" by (simp add: U)
  show "p_tv (Update rnd draws p) = p_tv p" by (simp add: U)
  show "p_ri (Update rnd draws p) = p_ri p" by (simp add: U)
  show "p_rr (Update rnd draws p) = p_rr p" by (simp add: U)
  show "p_rm (Update rnd draws p) = p_rm p" by (simp add: U)
  show "p_rv (Update rnd draws p) = p_rv p" by (simp add: U)
  show "p_rvh (Update rnd draws p) = p_rvh p" by (simp add: U)
  show "\<And>i j. i < ?N \<Longrightarrow> j < ?N \<Longrightarrow>
           p_m (Update rnd draws p) ! i ! j =
             cell_step rnd ?p1 (allowVaccination rnd p) (p_m p) (draws (i * ?N + j)) i j (p_m p ! i ! j)"
    by (simp add: U R3)
  show "snd (update_rows rnd ?p1 (allowVaccination rnd p) (p_m p) draws 0 0 (p_m p)) = ?N * ?N"
    by (rule R2)
qed

text \<open>Unfolding rules for evaluating the model on concrete inputs.\<close>

lemmas eval_simps = Update_def allowVaccination_def countStates_def count_rows.simps
  count_cols.simps update_rows.simps update_cols.simps update_cell_def infected_neighbours_def
  tally_def Counts_ctor_def set_cell_def Person_getState_def Person_set_sus_def
  Person_set_inf_def Person_set_rec_def Person_set_vac_def Person_ctor_def Let_def
  defaults_def pS_def pI_def pR_def pV_def const_draws_def exact_def int32_def

lemmas force_simps = set_sus_def set_inf_def set_rec_def set_vac_def in_grid_def

text \<open>The state of a cell after one call of \<^verbatim>\<open>Update\<close>.\<close>

lemma square_eqI:
  assumes "square N g" "square N h" "\<And>a b. a < N \<Longrightarrow> b < N \<Longrightarrow> g ! a ! b = h ! a ! b"
  shows "g = h"
proof (rule nth_equalityI)
  show "length g = length h" using assms(1,2) by (simp add: square_def)
next
  fix a assume "a < length g"
  with assms(1) have a: "a < N" by (simp add: square_def)
  show "g ! a = h ! a"
  proof (rule nth_equalityI)
    show "length (g ! a) = length (h ! a)"
      using square_nth [OF assms(1) a] square_nth [OF assms(2) a] by simp
  next
    fix b assume "b < length (g ! a)"
    with square_nth [OF assms(1) a] have "b < N" by simp
    with a show "g ! a ! b = h ! a ! b" by (rule assms(3))
  qed
qed

lemma in_grid_well_formed:
  "well_formed p \<Longrightarrow> in_grid (p_m p) i j \<longleftrightarrow> 0 \<le> i \<and> i < p_n p \<and> 0 \<le> j \<and> j < p_n p"
proof -
  assume w: "well_formed p"
  then have sq: "square (nat (p_n p)) (p_m p)" and n: "0 \<le> p_n p" by (simp_all add: well_formed_def)
  show ?thesis
  proof (cases "0 \<le> i \<and> i < p_n p")
    case True
    then have "nat i < nat (p_n p)" by simp
    from square_nth [OF sq this] sq True n show ?thesis by (simp add: in_grid_def square_def)
  next
    case False
    with sq n show ?thesis by (auto simp: in_grid_def square_def)
  qed
qed

lemma getState_well_formed:
  "well_formed p \<Longrightarrow> getState p i j =
     (if 0 \<le> i \<and> i < p_n p \<and> 0 \<le> j \<and> j < p_n p
      then Returns (p_state (p_m p ! nat i ! nat j)) else Undefined)"
  by (simp add: getState_def in_grid_well_formed Person_getState_def)

lemma p_state_cell_step:
  "p_state x = p_state (mOld ! i ! j) \<Longrightarrow>
   p_state (cell_step rnd p allow mOld seed i j x) =
     (let s = p_state (mOld ! i ! j);
          chance_inf = rnd (of_int (infected_neighbours (p_n p) mOld i j)) * p_ri p
      in if s = ''susceptible''
         then (if seed < chance_inf then ''infected''
               else if p_t p \<ge> p_tv p \<and> allow \<and> chance_inf < seed \<and> seed < chance_inf + p_rv p
               then ''vaccinated'' else ''susceptible'')
         else if s = ''infected''
         then (if seed < p_rr p then ''recovered'' else ''infected'')
         else if s = ''recovered''
         then (if seed < p_rm p then ''susceptible''
               else if p_t p > p_tv p \<and> allow \<and> p_rm p < seed \<and> seed < p_rm p + p_rv p
               then ''vaccinated'' else ''recovered'')
         else s)"
  by (simp add: cell_step_def Let_def Person_getState_def Person_set_sus_def Person_set_inf_def
      Person_set_rec_def Person_set_vac_def)

lemma Update_state:
  assumes "well_formed p" "i < nat (p_n p)" "j < nat (p_n p)"
  shows "p_state (p_m (Update rnd draws p) ! i ! j) =
     (let s = p_state (p_m p ! i ! j);
          seed = draws (i * nat (p_n p) + j);
          chance_inf = rnd (of_int (infected_neighbours (p_n p) (p_m p) i j)) * p_ri p
      in if s = ''susceptible''
         then (if seed < chance_inf then ''infected''
               else if int32 (p_t p + 1) \<ge> p_tv p \<and> allowVaccination rnd p \<and>
                       chance_inf < seed \<and> seed < chance_inf + p_rv p
               then ''vaccinated'' else ''susceptible'')
         else if s = ''infected''
         then (if seed < p_rr p then ''recovered'' else ''infected'')
         else if s = ''recovered''
         then (if seed < p_rm p then ''susceptible''
               else if int32 (p_t p + 1) > p_tv p \<and> allowVaccination rnd p \<and>
                       p_rm p < seed \<and> seed < p_rm p + p_rv p
               then ''vaccinated'' else ''recovered'')
         else s)"
  by (simp add: Update_spec(10) [OF assms] p_state_cell_step Let_def)


lemma cell_index_less: "i < N \<Longrightarrow> j < N \<Longrightarrow> i * N + j < N * (N::nat)"
proof -
  assume "i < N" "j < N"
  then have "i * N + j < i * N + N" by simp
  also have "\<dots> = Suc i * N" by simp
  also from \<open>i < N\<close> have "\<dots> \<le> N * N" by (simp only: Suc_le_eq [symmetric] mult_le_mono1)
  finally show ?thesis .
qed

lemma Update_unfold:
  "Update rnd draws p = p\<lparr>p_t := int32 (p_t p + 1), p_m := p_m (Update rnd draws p)\<rparr>"
  by (simp add: Update_def Let_def)

text \<open>The neighbourhood.\<close>

lemma neighbour_cells_bounds:
  "length (neighbour_cells n i j) \<le> 4"
  "(i = 0 \<or> i = n - 1) \<and> (j = 0 \<or> j = n - 1) \<Longrightarrow> length (neighbour_cells n i j) \<le> 2"
  "i = 0 \<or> i = n - 1 \<or> j = 0 \<or> j = n - 1 \<Longrightarrow> length (neighbour_cells n i j) \<le> 3"
  "0 < i \<and> i < n - 1 \<and> 0 < j \<and> j < n - 1 \<Longrightarrow> length (neighbour_cells n i j) = 4"
  "\<forall>(a, b) \<in> set (neighbour_cells n i j). 0 \<le> a \<and> a < n \<and> 0 \<le> b \<and> b < n"
  by (auto simp: neighbour_cells_def)

lemma length_filter4:
  "int (length (filter R [a, b, c, d])) =
     (if R d then 1 else 0) + ((if R c then 1 else 0) + ((if R b then 1 else 0) +
       (if R a then 1 else 0)))"
  by simp

lemma infected_neighbours_count_nat:
  assumes "int i < n" "int j < n"
  shows "infected_neighbours n g i j = infected_count n g (int i) (int j)"
proof -
  let ?R = "\<lambda>(a, b). (0 \<le> a \<and> a < n \<and> 0 \<le> b \<and> b < n) \<and>
                     Person_getState (g ! nat a ! nat b) = ''infected''"
  have up: "?R (int i - 1, int j) \<longleftrightarrow>
        int i - 1 \<ge> 0 \<and> Person_getState (g ! (i - 1) ! j) = ''infected''"
    using assms by (cases i) auto
  have left: "?R (int i, int j - 1) \<longleftrightarrow>
        int j - 1 \<ge> 0 \<and> Person_getState (g ! i ! (j - 1)) = ''infected''"
    using assms by (cases j) auto
  have down: "?R (int i + 1, int j) \<longleftrightarrow>
        int i + 1 < n \<and> Person_getState (g ! (i + 1) ! j) = ''infected''"
    using assms by (auto simp: nat_add_distrib)
  have right: "?R (int i, int j + 1) \<longleftrightarrow>
        int j + 1 < n \<and> Person_getState (g ! i ! (j + 1)) = ''infected''"
    using assms by (auto simp: nat_add_distrib)
  have "infected_count n g (int i) (int j) =
      int (length (filter ?R [(int i - 1, int j), (int i, int j - 1), (int i + 1, int j),
                               (int i, int j + 1)]))"
    unfolding infected_count_def neighbour_cells_def filter_filter
    by (rule arg_cong [where f = "\<lambda>P. int (length (filter P _))"]) auto
  also have "\<dots> = infected_neighbours n g i j"
    unfolding length_filter4 up left down right infected_neighbours_def Let_def
    by (simp only: if_distrib [where f = "\<lambda>x. x + 1"] add_0 add.commute add.left_commute
          cong: if_cong) simp
  finally show ?thesis by simp
qed

lemma neighbour_cells_adjacent:
  "\<forall>(a, b) \<in> set (neighbour_cells n i j).
        0 \<le> a \<and> a < n \<and> 0 \<le> b \<and> b < n \<and> \<bar>a - i\<bar> + \<bar>b - j\<bar> = 1"
  by (simp add: neighbour_cells_def)

lemma getState_index:
  assumes "well_formed p" "getState p i j = Returns s"
  shows "0 \<le> i" "i < p_n p" "0 \<le> j" "j < p_n p" "nat i < nat (p_n p)" "nat j < nat (p_n p)"
    "p_state (p_m p ! nat i ! nat j) = s"
  using assms by (simp_all add: getState_well_formed split: if_splits)

lemma getState_Update:
  assumes "well_formed p" "getState p i j = Returns s"
  shows "getState (Update rnd draws p) i j =
           Returns (p_state (p_m (Update rnd draws p) ! nat i ! nat j))"
  using getState_index [OF assms]
  by (simp add: getState_well_formed [OF Update_spec(1) [OF assms(1)]] Update_spec(3) [OF assms(1)])

text \<open>Runs in which nothing happens, used to reach a given day.\<close>

lemma no_infected_neighbours:
  assumes "\<And>a b. a < N \<Longrightarrow> b < N \<Longrightarrow> p_state (g ! a ! b) \<noteq> ''infected''"
    and "i < N" "j < N"
  shows "infected_neighbours (int N) g i j = 0"
proof -
  have "\<not> (int i - 1 \<ge> 0 \<and> Person_getState (g ! (i - 1) ! j) = ''infected'')"
    using assms(1) [of "i - 1" j] assms(2,3) by (simp add: Person_getState_def)
  moreover have "\<not> (int j - 1 \<ge> 0 \<and> Person_getState (g ! i ! (j - 1)) = ''infected'')"
    using assms(1) [of i "j - 1"] assms(2,3) by (simp add: Person_getState_def)
  moreover have "\<not> (int i + 1 < int N \<and> Person_getState (g ! (i + 1) ! j) = ''infected'')"
    using assms(1) [of "i + 1" j] assms(2,3) by (simp add: Person_getState_def)
  moreover have "\<not> (int j + 1 < int N \<and> Person_getState (g ! i ! (j + 1)) = ''infected'')"
    using assms(1) [of i "j + 1"] assms(2,3) by (simp add: Person_getState_def)
  ultimately show ?thesis
    unfolding infected_neighbours_def Let_def by (simp only: if_False)
qed

lemma well_formed_defaults: "well_formed (defaults (replicate N (replicate N x)) (int N) t)"
  by (simp add: well_formed_def square_def defaults_def)

lemma quiet_Update:
  "Update exact (const_draws (1 / 2)) (defaults (replicate N (replicate N pS)) (int N) t) =
   defaults (replicate N (replicate N pS)) (int N) (int32 (t + 1))"
proof -
  let ?G = "replicate N (replicate N pS)"
  let ?P = "defaults ?G (int N) t"
  let ?U = "Update exact (const_draws (1 / 2)) ?P"
  have w: "well_formed ?P" by (rule well_formed_defaults)
  have f: "p_m ?P = ?G" "nat (p_n ?P) = N" "p_n ?P = int N" by (simp_all add: defaults_def)
  have "p_m ?U = ?G"
  proof (rule square_eqI [of N])
    show "square N (p_m ?U)"
      using Update_spec(1,3) [OF w, of exact "const_draws (1 / 2)"] by (simp add: well_formed_def f)
    show "square N ?G" by (simp add: square_def)
  next
    fix a b assume ab: "a < N" "b < N"
    have k: "infected_neighbours (int N) ?G a b = 0"
      by (rule no_infected_neighbours [of N]) (use ab in \<open>simp_all add: pS_def\<close>)
    from ab have s: "p_state (?G ! a ! b) = ''susceptible''" by (simp add: pS_def)
    have "p_m ?U ! a ! b =
        cell_step exact (?P\<lparr>p_t := int32 (p_t ?P + 1)\<rparr>) (allowVaccination exact ?P) ?G
          (const_draws (1 / 2) (a * N + b)) a b (?G ! a ! b)"
      using Update_spec(10) [OF w, of a b exact "const_draws (1 / 2)"] ab by (simp add: f)
    also have "\<dots> = ?G ! a ! b"
      using s by (simp add: cell_step_def Let_def Person_getState_def k f const_draws_def
          defaults_def exact_def)
    finally show "p_m ?U ! a ! b = ?G ! a ! b" .
  qed
  then have "?U = ?P\<lparr>p_t := int32 (p_t ?P + 1), p_m := ?G\<rparr>"
    by (subst Update_unfold) simp
  then show ?thesis by (simp add: defaults_def)
qed

lemma quiet_run:
  "int32 t = t \<Longrightarrow>
   perform_all exact (replicate k (Advance (const_draws (1 / 2))))
     (defaults (replicate N (replicate N pS)) (int N) t) =
   Returns (defaults (replicate N (replicate N pS)) (int N) (int32 (t + int k)))"
proof (induction k arbitrary: t)
  case 0
  then show ?case by simp
next
  case (Suc k)
  have e: "int32 (int32 (t + 1) + int k) = int32 (t + int (Suc k))"
    by (simp add: int32_add_left add.assoc)
  have "perform_all exact (replicate (Suc k) (Advance (const_draws (1 / 2))))
          (defaults (replicate N (replicate N pS)) (int N) t) =
        perform_all exact (replicate k (Advance (const_draws (1 / 2))))
          (Update exact (const_draws (1 / 2)) (defaults (replicate N (replicate N pS)) (int N) t))"
    by (simp only: replicate_Suc perform_all.simps perform.simps outcome.case)
  also have "\<dots> =
      Returns (defaults (replicate N (replicate N pS)) (int N) (int32 (int32 (t + 1) + int k)))"
    unfolding quiet_Update by (rule Suc.IH) (rule int32_idem)
  finally show ?case unfolding e .
qed

lemma perform_all_append:
  "perform_all rnd (as @ bs) p =
     (case perform_all rnd as p of
        Returns q \<Rightarrow> perform_all rnd bs q | Throws e \<Rightarrow> Throws e | Undefined \<Rightarrow> Undefined)"
  by (induction as arbitrary: p) (simp_all split: outcome.splits)

lemma quiet_run_1:
  "int k \<le> INT_MAX \<Longrightarrow>
   perform_all exact (replicate k (Advance (const_draws (1 / 2)))) (defaults [[pS]] 1 0) =
   Returns (defaults [[pS]] 1 (int k))"
  using quiet_run [of 0 k 1] by (simp add: int32_0 int32_id INT_MIN_def)

lemma quiet_run_2:
  "int k \<le> INT_MAX \<Longrightarrow>
   perform_all exact (replicate k (Advance (const_draws (1 / 2))))
     (defaults [[pS, pS], [pS, pS]] 2 0) =
   Returns (defaults [[pS, pS], [pS, pS]] 2 (int k))"
  using quiet_run [of 0 k 2] by (simp add: numeral_2_eq_2 int32_0 int32_id INT_MIN_def)

lemma Population_ctor_defaults:
  "0 \<le> n \<Longrightarrow> n * n + n \<le> int avail \<Longrightarrow>
   Population_ctor exact avail n =
     Returns (defaults (replicate (nat n) (replicate (nat n) pS)) n 0)"
  by (simp add: Population_ctor_def defaults_def pS_def Person_ctor_def exact_def)





text \<open>One cell written, the others kept.\<close>

lemma in_grid_nat:
  "in_grid g i j \<Longrightarrow> 0 \<le> i \<and> nat i < length g \<and> 0 \<le> j \<and> nat j < length (g ! nat i)"
  unfolding in_grid_def by linarith

lemma in_grid_set_cell:
  assumes "in_grid g i j"
  shows "in_grid (set_cell f (nat i) (nat j) g) a b = in_grid g a b"
proof (cases "nat a = nat i")
  case True
  with in_grid_nat [OF assms] show ?thesis by (simp add: in_grid_def set_cell_def)
next
  case False
  then show ?thesis by (simp add: in_grid_def set_cell_def)
qed

lemma set_cell_other:
  assumes "in_grid g i j" "in_grid g a b" "(a, b) \<noteq> (i, j)"
  shows "set_cell f (nat i) (nat j) g ! nat a ! nat b = g ! nat a ! nat b"
proof (cases "a = i")
  case True
  with assms(3) have "b \<noteq> j" by simp
  with in_grid_nat [OF assms(1)] in_grid_nat [OF assms(2)] have "nat b \<noteq> nat j" by linarith
  with True in_grid_nat [OF assms(1)] show ?thesis by (simp add: set_cell_def)
next
  case False
  with in_grid_nat [OF assms(1)] in_grid_nat [OF assms(2)] have "nat a \<noteq> nat i" by linarith
  then show ?thesis by (simp add: set_cell_def)
qed

lemma set_cell_same:
  assumes "in_grid g i j"
  shows "set_cell f (nat i) (nat j) g ! nat i ! nat j = f (g ! nat i ! nat j)"
  using in_grid_nat [OF assms] by (simp add: set_cell_def)

lemma force_frame:
  assumes "in_grid (p_m p) i j"
  shows "unchanged_but p (p\<lparr>p_m := set_cell f (nat i) (nat j) (p_m p)\<rparr>) i j"
  unfolding unchanged_but_def getState_def
  using in_grid_set_cell [OF assms, of f] set_cell_other [OF assms, of _ _ f]
  by simp

section \<open>C1: the tallies add up to the number of cells\<close>


















section \<open>C2: the rule for a susceptible cell\<close>

text \<open>
  Claim C2, as amended. Let cell \<open>(i, j)\<close> be susceptible when \<^verbatim>\<open>Update\<close> is called, \<open>k\<close> the
  number of its neighbours inside the grid that are infected at that moment,
  \<open>p_inf = k * ri\<close> and \<open>seed\<close> the draw number \<open>i * n + j\<close> of the call. After the call the
  cell is infected if \<open>seed < p_inf\<close>; otherwise it is vaccinated if the day counter, already
  incremented by this call, is at least \<open>tv\<close>, vaccination is allowed and
  \<open>p_inf < seed < p_inf + rv\<close> (both bounds strict); otherwise it is still susceptible.
  The neighbours are at most 4, at most 2 for a corner cell and at most 3 for a cell on an
  edge, all inside the grid and at distance 1 (no wraparound).
\<close>

theorem susceptible_rule:
  assumes "well_formed p" and "getState p i j = Returns ''susceptible''"
  shows "p_t (Update rnd draws p) = int32 (p_t p + 1) \<and>
     getState (Update rnd draws p) i j =
       Returns
        (let k = infected_count (p_n p) (p_m p) i j;
             p_inf = rnd (of_int k) * p_ri p;
             seed = draws (nat i * nat (p_n p) + nat j)
         in if seed < p_inf then ''infected''
            else if p_t (Update rnd draws p) \<ge> p_tv p \<and> allowVaccination rnd p \<and>
                    p_inf < seed \<and> seed < p_inf + p_rv p
            then ''vaccinated''
            else ''susceptible'') \<and>
     0 \<le> infected_count (p_n p) (p_m p) i j \<and>
     infected_count (p_n p) (p_m p) i j \<le> int (length (neighbour_cells (p_n p) i j)) \<and>
     length (neighbour_cells (p_n p) i j) \<le> 4 \<and>
     ((i = 0 \<or> i = p_n p - 1) \<and> (j = 0 \<or> j = p_n p - 1) \<longrightarrow>
        length (neighbour_cells (p_n p) i j) \<le> 2) \<and>
     (i = 0 \<or> i = p_n p - 1 \<or> j = 0 \<or> j = p_n p - 1 \<longrightarrow>
        length (neighbour_cells (p_n p) i j) \<le> 3) \<and>
     (\<forall>(a, b) \<in> set (neighbour_cells (p_n p) i j).
        0 \<le> a \<and> a < p_n p \<and> 0 \<le> b \<and> b < p_n p \<and> \<bar>a - i\<bar> + \<bar>b - j\<bar> = 1)"
proof -
  note ix = getState_index [OF assms]
  have k: "infected_neighbours (p_n p) (p_m p) (nat i) (nat j) =
           infected_count (p_n p) (p_m p) i j"
    using infected_neighbours_count_nat [of "nat i" "p_n p" "nat j" "p_m p"] ix by simp
  have t: "p_t (Update rnd draws p) = int32 (p_t p + 1)" by (rule Update_spec(2) [OF assms(1)])
  have st: "getState (Update rnd draws p) i j =
       Returns
        (let k = infected_count (p_n p) (p_m p) i j;
             p_inf = rnd (of_int k) * p_ri p;
             seed = draws (nat i * nat (p_n p) + nat j)
         in if seed < p_inf then ''infected''
            else if p_t (Update rnd draws p) \<ge> p_tv p \<and> allowVaccination rnd p \<and>
                    p_inf < seed \<and> seed < p_inf + p_rv p
            then ''vaccinated''
            else ''susceptible'')"
    unfolding getState_Update [OF assms] t
    using Update_state [OF assms(1) ix(5,6), of rnd draws] ix(7)
    by (simp add: Let_def k)
  have c: "infected_count (p_n p) (p_m p) i j \<le> int (length (neighbour_cells (p_n p) i j))"
    "0 \<le> infected_count (p_n p) (p_m p) i j"
    by (simp_all add: infected_count_def)
  have nb: "\<forall>(a, b) \<in> set (neighbour_cells (p_n p) i j).
        0 \<le> a \<and> a < p_n p \<and> 0 \<le> b \<and> b < p_n p \<and> \<bar>a - i\<bar> + \<bar>b - j\<bar> = 1"
    by (rule neighbour_cells_adjacent)
  show ?thesis
    apply (intro conjI impI)
           apply (rule t)
          apply (rule st)
         apply (rule c(2))
        apply (rule c(1))
       apply (rule neighbour_cells_bounds(1))
      apply (erule neighbour_cells_bounds(2))
     apply (erule neighbour_cells_bounds(3))
    apply (rule nb)
    done
qed

theorem susceptible_rule_witness:
  "well_formed (defaults [[pS, pI], [pS, pS]] 2 200) \<and>
   getState (defaults [[pS, pI], [pS, pS]] 2 200) 0 0 = Returns ''susceptible'' \<and>
   getState (defaults [[pS, pI], [pS, pS]] 2 200) 1 0 = Returns ''susceptible'' \<and>
   infected_count 2 [[pS, pI], [pS, pS]] 0 0 = 1 \<and>
   infected_count 2 [[pS, pI], [pS, pS]] 1 0 = 0 \<and>
   length (neighbour_cells 2 0 0) = 2 \<and>
   p_t (Update exact (const_draws (1 / 8)) (defaults [[pS, pI], [pS, pS]] 2 200)) = 201 \<and>
   getState (Update exact (const_draws (1 / 8)) (defaults [[pS, pI], [pS, pS]] 2 200)) 0 0 =
     Returns ''infected'' \<and>
   getState (Update exact (const_draws (1 / 2048)) (defaults [[pS, pI], [pS, pS]] 2 200)) 1 0 =
     Returns ''vaccinated'' \<and>
   getState (Update exact (const_draws (1 / 2)) (defaults [[pS, pI], [pS, pS]] 2 200)) 0 0 =
     Returns ''susceptible''"
proof -
  let ?P = "defaults [[pS, pI], [pS, pS]] 2 200"
  have w: "well_formed ?P"
    by (simp add: well_formed_def square_def defaults_def numeral_2_eq_2)
  have g: "getState ?P 0 0 = Returns ''susceptible''" "getState ?P 1 0 = Returns ''susceptible''"
    by (simp_all add: getState_def in_grid_def defaults_def pS_def Person_getState_def)
  have k: "infected_count 2 [[pS, pI], [pS, pS]] 0 0 = 1"
    "infected_count 2 [[pS, pI], [pS, pS]] 1 0 = 0" "length (neighbour_cells 2 0 0) = 2"
    by (simp_all add: infected_count_def neighbour_cells_def pS_def pI_def Person_getState_def)
  have a: "allowVaccination exact ?P" by (simp add: eval_simps)
  have f: "p_n ?P = 2" "p_m ?P = [[pS, pI], [pS, pS]]" "p_t ?P = 200" "p_tv ?P = 200"
    "p_ri ?P = 1 / 5" "p_rv ?P = 1 / 1000"
    by (simp_all add: defaults_def)
  from susceptible_rule [OF w g(1), of exact "const_draws (1 / 8)"]
  have 1: "p_t (Update exact (const_draws (1 / 8)) ?P) = 201"
    "getState (Update exact (const_draws (1 / 8)) ?P) 0 0 = Returns ''infected''"
    by (simp_all add: f k a Let_def const_draws_def int32_def exact_def)
  from susceptible_rule [OF w g(2), of exact "const_draws (1 / 2048)"]
  have 2: "getState (Update exact (const_draws (1 / 2048)) ?P) 1 0 = Returns ''vaccinated''"
    by (simp add: f k a Let_def const_draws_def int32_def exact_def)
  from susceptible_rule [OF w g(1), of exact "const_draws (1 / 2)"]
  have 3: "getState (Update exact (const_draws (1 / 2)) ?P) 0 0 = Returns ''susceptible''"
    by (simp add: f k a Let_def const_draws_def int32_def exact_def)
  from w g k 1 2 3 show ?thesis by simp
qed

text \<open>
  The claim as stated, with the lower bound \<open>p_inf \<le> seed\<close>, fails when the draw equals
  \<open>p_inf\<close>. On a grid of one cell, 199 quiet days after construction, the 200th call draws
  \<open>0\<close>: there is no infected neighbour, so \<open>p_inf = 0\<close>; the draw is not below \<open>p_inf\<close>, the
  day counter reaches \<open>tv = 200\<close>, vaccination is allowed and \<open>p_inf \<le> seed < p_inf + rv\<close>,
  yet the cell stays susceptible, because the code tests \<^verbatim>\<open>chance_inf < seed\<close>.
\<close>

theorem susceptible_rule_counterexample:
  "Population_ctor exact 2 1 = Returns (defaults [[pS]] 1 0) \<and>
   perform_all exact (replicate 199 (Advance (const_draws (1 / 2)))) (defaults [[pS]] 1 0) =
     Returns (defaults [[pS]] 1 199) \<and>
   getState (defaults [[pS]] 1 199) 0 0 = Returns ''susceptible'' \<and>
   infected_count 1 [[pS]] 0 0 = 0 \<and>
   \<not> const_draws 0 0 < exact (of_int 0) * p_ri (defaults [[pS]] 1 199) \<and>
   p_tv (defaults [[pS]] 1 199) \<le> p_t (Update exact (const_draws 0) (defaults [[pS]] 1 199)) \<and>
   allowVaccination exact (defaults [[pS]] 1 199) \<and>
   exact (of_int 0) * p_ri (defaults [[pS]] 1 199) \<le> const_draws 0 0 \<and>
   const_draws 0 0 < exact (of_int 0) * p_ri (defaults [[pS]] 1 199) + p_rv (defaults [[pS]] 1 199) \<and>
   getState (Update exact (const_draws 0) (defaults [[pS]] 1 199)) 0 0 = Returns ''susceptible''"
proof -
  have 1: "Population_ctor exact 2 1 = Returns (defaults [[pS]] 1 0)"
    using Population_ctor_defaults [of 1 2] by simp
  have 2: "perform_all exact (replicate 199 (Advance (const_draws (1 / 2)))) (defaults [[pS]] 1 0) =
     Returns (defaults [[pS]] 1 199)"
    using quiet_run_1 [of 199] by (simp add: INT_MAX_def)
  have 3: "Update exact (const_draws 0) (defaults [[pS]] 1 199) = defaults [[pS]] 1 200"
    by (simp add: eval_simps)
  have 4: "allowVaccination exact (defaults [[pS]] 1 199)"
    by (simp add: eval_simps)
  have 5: "infected_count 1 [[pS]] 0 0 = 0"
    by (simp add: infected_count_def neighbour_cells_def)
  show ?thesis
    unfolding 3 using 1 2 4 5
    by (simp add: getState_def in_grid_def defaults_def pS_def Person_getState_def const_draws_def
        exact_def)
qed

section \<open>C3: the rule for a recovered cell\<close>

text \<open>
  Claim C3, as amended. Let cell \<open>(i, j)\<close> be recovered when \<^verbatim>\<open>Update\<close> is called and \<open>seed\<close>
  the draw number \<open>i * n + j\<close> of the call. After the call the cell is susceptible if
  \<open>seed < rm\<close>; otherwise it is vaccinated if the day counter, already incremented by this
  call, is strictly greater than \<open>tv\<close>, vaccination is allowed and \<open>rm < seed < rm + rv\<close>
  (both bounds strict); otherwise it is still recovered.
\<close>

theorem recovered_rule:
  assumes "well_formed p" and "getState p i j = Returns ''recovered''"
  shows "p_t (Update rnd draws p) = int32 (p_t p + 1) \<and>
     getState (Update rnd draws p) i j =
       Returns
        (let seed = draws (nat i * nat (p_n p) + nat j)
         in if seed < p_rm p then ''susceptible''
            else if p_t (Update rnd draws p) > p_tv p \<and> allowVaccination rnd p \<and>
                    p_rm p < seed \<and> seed < p_rm p + p_rv p
            then ''vaccinated''
            else ''recovered'')"
proof -
  note ix = getState_index [OF assms]
  have t: "p_t (Update rnd draws p) = int32 (p_t p + 1)" by (rule Update_spec(2) [OF assms(1)])
  show ?thesis
    unfolding getState_Update [OF assms] t
    using Update_state [OF assms(1) ix(5,6), of rnd draws] ix(7)
    by (simp add: Let_def)
qed

theorem recovered_rule_witness:
  "well_formed (defaults [[pS, pI], [pR, pS]] 2 205) \<and>
   getState (defaults [[pS, pI], [pR, pS]] 2 205) 1 0 = Returns ''recovered'' \<and>
   p_t (Update exact (const_draws (11 / 2000)) (defaults [[pS, pI], [pR, pS]] 2 205)) = 206 \<and>
   getState (Update exact (const_draws (11 / 2000)) (defaults [[pS, pI], [pR, pS]] 2 205)) 1 0 =
     Returns ''vaccinated'' \<and>
   getState (Update exact (const_draws (1 / 1000)) (defaults [[pS, pI], [pR, pS]] 2 205)) 1 0 =
     Returns ''susceptible'' \<and>
   getState (Update exact (const_draws (1 / 2)) (defaults [[pS, pI], [pR, pS]] 2 205)) 1 0 =
     Returns ''recovered''"
proof -
  let ?P = "defaults [[pS, pI], [pR, pS]] 2 205"
  have w: "well_formed ?P"
    by (simp add: well_formed_def square_def defaults_def numeral_2_eq_2)
  have g: "getState ?P 1 0 = Returns ''recovered''"
    by (simp add: getState_def in_grid_def defaults_def pR_def Person_getState_def)
  have a: "allowVaccination exact ?P" by (simp add: eval_simps)
  have f: "p_n ?P = 2" "p_t ?P = 205" "p_tv ?P = 200" "p_rm ?P = 1 / 200" "p_rv ?P = 1 / 1000"
    by (simp_all add: defaults_def)
  from recovered_rule [OF w g, of exact "const_draws (11 / 2000)"]
  have 1: "p_t (Update exact (const_draws (11 / 2000)) ?P) = 206"
    "getState (Update exact (const_draws (11 / 2000)) ?P) 1 0 = Returns ''vaccinated''"
    by (simp_all add: f a Let_def const_draws_def int32_def)
  from recovered_rule [OF w g, of exact "const_draws (1 / 1000)"]
  have 2: "getState (Update exact (const_draws (1 / 1000)) ?P) 1 0 = Returns ''susceptible''"
    by (simp add: f a Let_def const_draws_def int32_def)
  from recovered_rule [OF w g, of exact "const_draws (1 / 2)"]
  have 3: "getState (Update exact (const_draws (1 / 2)) ?P) 1 0 = Returns ''recovered''"
    by (simp add: f a Let_def const_draws_def int32_def)
  from w g 1 2 3 show ?thesis by simp
qed

text \<open>
  The claim as stated, with the lower bound \<open>rm \<le> seed\<close>, fails when the draw equals \<open>rm\<close>.
  On a grid of one cell, after 200 quiet days and \<^verbatim>\<open>set_rec(0, 0)\<close>, the 201st call draws
  \<open>1 / 200\<close>: the draw is not below \<open>rm\<close>, the day counter 201 exceeds \<open>tv = 200\<close>,
  vaccination is allowed and \<open>rm \<le> seed < rm + rv\<close>, yet the cell stays recovered, because
  the code tests \<^verbatim>\<open>_rm < seed\<close>.
\<close>

theorem recovered_rule_counterexample:
  "Population_ctor exact 2 1 = Returns (defaults [[pS]] 1 0) \<and>
   perform_all exact (replicate 200 (Advance (const_draws (1 / 2))) @ [Force_rec 0 0])
     (defaults [[pS]] 1 0) = Returns (defaults [[pR]] 1 200) \<and>
   getState (defaults [[pR]] 1 200) 0 0 = Returns ''recovered'' \<and>
   \<not> const_draws (1 / 200) 0 < p_rm (defaults [[pR]] 1 200) \<and>
   p_tv (defaults [[pR]] 1 200) < p_t (Update exact (const_draws (1 / 200)) (defaults [[pR]] 1 200)) \<and>
   allowVaccination exact (defaults [[pR]] 1 200) \<and>
   p_rm (defaults [[pR]] 1 200) \<le> const_draws (1 / 200) 0 \<and>
   const_draws (1 / 200) 0 < p_rm (defaults [[pR]] 1 200) + p_rv (defaults [[pR]] 1 200) \<and>
   getState (Update exact (const_draws (1 / 200)) (defaults [[pR]] 1 200)) 0 0 = Returns ''recovered''"
proof -
  have 1: "Population_ctor exact 2 1 = Returns (defaults [[pS]] 1 0)"
    using Population_ctor_defaults [of 1 2] by simp
  have 2: "perform_all exact (replicate 200 (Advance (const_draws (1 / 2))) @ [Force_rec 0 0])
     (defaults [[pS]] 1 0) = Returns (defaults [[pR]] 1 200)"
  proof -
    have q: "perform_all exact (replicate 200 (Advance (const_draws (1 / 2))))
        (defaults [[pS]] 1 0) = Returns (defaults [[pS]] 1 200)"
      using quiet_run_1 [of 200] by (simp add: INT_MAX_def)
    show ?thesis
      unfolding perform_all_append q by (simp add: force_simps eval_simps)
  qed
  have 3: "Update exact (const_draws (1 / 200)) (defaults [[pR]] 1 200) = defaults [[pR]] 1 201"
    by (simp add: eval_simps)
  have 4: "allowVaccination exact (defaults [[pR]] 1 200)"
    by (simp add: eval_simps)
  show ?thesis
    unfolding 3 using 1 2 4
    by (simp add: getState_def in_grid_def defaults_def pR_def Person_getState_def const_draws_def
        exact_def)
qed

section \<open>C4: Vaccinated is absorbing\<close>

lemma Update_vaccinated:
  assumes "well_formed p" "getState p i j = Returns ''vaccinated''"
  shows "getState (Update rnd draws p) i j = Returns ''vaccinated''"
proof -
  from assms have r: "0 \<le> i" "i < p_n p" "0 \<le> j" "j < p_n p"
    and s: "p_state (p_m p ! nat i ! nat j) = ''vaccinated''"
    by (simp_all add: getState_well_formed split: if_splits)
  from r have "nat i < nat (p_n p)" "nat j < nat (p_n p)" by simp_all
  from Update_state [OF assms(1) this, of rnd draws] s
  have "p_state (p_m (Update rnd draws p) ! nat i ! nat j) = ''vaccinated''"
    by (simp add: Let_def)
  with r show ?thesis
    by (simp add: getState_well_formed [OF Update_spec(1) [OF assms(1)]] Update_spec(3) [OF assms(1)])
qed

text \<open>
  Claim C4. A cell whose state is \<^verbatim>\<open>"vaccinated"\<close> is still vaccinated after one call of
  \<^verbatim>\<open>Update\<close> and after any number of calls, whatever the draws of each call are: no branch
  of \<^verbatim>\<open>Update\<close> writes a cell that is vaccinated in \<^verbatim>\<open>mOld\<close>.
\<close>

theorem vaccinated_absorbing:
  "well_formed p \<Longrightarrow> getState p i j = Returns ''vaccinated'' \<Longrightarrow>
   getState (Update rnd draws p) i j = Returns ''vaccinated'' \<and>
   getState (run rnd ds p) i j = Returns ''vaccinated''"
proof (induction ds arbitrary: p)
  case Nil
  then show ?case by (simp add: Update_vaccinated)
next
  case (Cons d ds)
  from Cons.prems have 1: "getState (Update rnd d p) i j = Returns ''vaccinated''"
    by (rule Update_vaccinated)
  from Cons.prems have 2: "well_formed (Update rnd d p)" by (simp add: Update_spec(1))
  from Cons.IH [OF 2 1] Cons.prems show ?case by (simp add: Update_vaccinated)
qed

theorem vaccinated_absorbing_witness:
  "well_formed (defaults [[pV, pI], [pS, pR]] 2 205) \<and>
   getState (defaults [[pV, pI], [pS, pR]] 2 205) 0 0 = Returns ''vaccinated'' \<and>
   getState (Update exact (const_draws 0) (defaults [[pV, pI], [pS, pR]] 2 205)) 0 0 =
     Returns ''vaccinated'' \<and>
   getState (run exact [const_draws 0, const_draws (1 / 2), const_draws (1 / 400)]
               (defaults [[pV, pI], [pS, pR]] 2 205)) 0 0 = Returns ''vaccinated''"
proof -
  have w: "well_formed (defaults [[pV, pI], [pS, pR]] 2 205)"
    by (simp add: well_formed_def square_def defaults_def numeral_2_eq_2)
  have g: "getState (defaults [[pV, pI], [pS, pR]] 2 205) 0 0 = Returns ''vaccinated''"
    by (simp add: getState_def in_grid_def defaults_def pV_def Person_getState_def)
  from vaccinated_absorbing [OF w g, of exact "const_draws 0"
      "[const_draws 0, const_draws (1 / 2), const_draws (1 / 400)]"] w g
  show ?thesis by simp
qed

section \<open>C5: when vaccination can happen\<close>










section \<open>C6: what the constructor returns\<close>




section \<open>C7: the accessors and the mutators, inside and outside the grid\<close>

lemma force_result:
  assumes "in_grid (p_m p) i j"
  shows "getState (p\<lparr>p_m := set_cell f (nat i) (nat j) (p_m p)\<rparr>) i j =
           Returns (p_state (f (p_m p ! nat i ! nat j)))"
  using in_grid_set_cell [OF assms, of f i j] set_cell_same [OF assms, of f] assms
  by (simp add: getState_def Person_getState_def)

text \<open>
  Claim C7, as amended. On an \<open>n\<close> by \<open>n\<close> grid and for \<open>0 \<le> i < n\<close>, \<open>0 \<le> j < n\<close>,
  \<^verbatim>\<open>getState(i, j)\<close> returns the state of that cell and each mutator returns an object in which
  that cell has the state the mutator names and nothing else has changed; no draw is
  involved. For any other \<open>(i, j)\<close> the code makes no test: \<^verbatim>\<open>_m[i][j]\<close> is an unchecked
  access, its behaviour is undefined, and no out-of-bounds failure is raised.
\<close>

theorem accessors_in_range:
  assumes "well_formed p"
  shows "(0 \<le> i \<and> i < p_n p \<and> 0 \<le> j \<and> j < p_n p \<longrightarrow>
            getState p i j = Returns (Person_getState (p_m p ! nat i ! nat j)) \<and>
            (\<exists>q. set_sus p i j = Returns q \<and> getState q i j = Returns ''susceptible'' \<and>
                 unchanged_but p q i j) \<and>
            (\<exists>q. set_inf p i j = Returns q \<and> getState q i j = Returns ''infected'' \<and>
                 unchanged_but p q i j) \<and>
            (\<exists>q. set_rec p i j = Returns q \<and> getState q i j = Returns ''recovered'' \<and>
                 unchanged_but p q i j) \<and>
            (\<exists>q. set_vac p i j = Returns q \<and> getState q i j = Returns ''vaccinated'' \<and>
                 unchanged_but p q i j)) \<and>
         (\<not> (0 \<le> i \<and> i < p_n p \<and> 0 \<le> j \<and> j < p_n p) \<longrightarrow>
            getState p i j = Undefined \<and> set_sus p i j = Undefined \<and> set_inf p i j = Undefined \<and>
            set_rec p i j = Undefined \<and> set_vac p i j = Undefined)"
proof (intro conjI impI)
  assume r: "0 \<le> i \<and> i < p_n p \<and> 0 \<le> j \<and> j < p_n p"
  with assms have g: "in_grid (p_m p) i j" by (simp add: in_grid_well_formed)
  then show "getState p i j = Returns (Person_getState (p_m p ! nat i ! nat j))"
    by (simp add: getState_def)
  show "\<exists>q. set_sus p i j = Returns q \<and> getState q i j = Returns ''susceptible'' \<and>
                 unchanged_but p q i j"
    using g by (simp add: set_sus_def force_result force_frame Person_set_sus_def)
  show "\<exists>q. set_inf p i j = Returns q \<and> getState q i j = Returns ''infected'' \<and>
                 unchanged_but p q i j"
    using g by (simp add: set_inf_def force_result force_frame Person_set_inf_def)
  show "\<exists>q. set_rec p i j = Returns q \<and> getState q i j = Returns ''recovered'' \<and>
                 unchanged_but p q i j"
    using g by (simp add: set_rec_def force_result force_frame Person_set_rec_def)
  show "\<exists>q. set_vac p i j = Returns q \<and> getState q i j = Returns ''vaccinated'' \<and>
                 unchanged_but p q i j"
    using g by (simp add: set_vac_def force_result force_frame Person_set_vac_def)
next
  assume "\<not> (0 \<le> i \<and> i < p_n p \<and> 0 \<le> j \<and> j < p_n p)"
  with assms have g: "\<not> in_grid (p_m p) i j" by (simp add: in_grid_well_formed)
  then show "getState p i j = Undefined" "set_sus p i j = Undefined" "set_inf p i j = Undefined"
    "set_rec p i j = Undefined" "set_vac p i j = Undefined"
    by (simp_all add: getState_def set_sus_def set_inf_def set_rec_def set_vac_def)
qed

theorem accessors_in_range_witness:
  "well_formed (defaults [[pS, pI], [pR, pS]] 2 0) \<and>
   getState (defaults [[pS, pI], [pR, pS]] 2 0) 1 0 = Returns ''recovered'' \<and>
   set_inf (defaults [[pS, pI], [pR, pS]] 2 0) 1 0 = Returns (defaults [[pS, pI], [pI, pS]] 2 0) \<and>
   getState (defaults [[pS, pI], [pI, pS]] 2 0) 1 0 = Returns ''infected'' \<and>
   getState (defaults [[pS, pI], [pR, pS]] 2 0) 2 0 = Undefined \<and>
   set_inf (defaults [[pS, pI], [pR, pS]] 2 0) 0 (- 1) = Undefined"
proof -
  let ?P = "defaults [[pS, pI], [pR, pS]] 2 0"
  have w: "well_formed ?P"
    by (simp add: well_formed_def square_def defaults_def numeral_2_eq_2)
  have f: "p_n ?P = 2" "p_m ?P = [[pS, pI], [pR, pS]]" by (simp_all add: defaults_def)
  from accessors_in_range [OF w, of 1 0]
  have "getState ?P 1 0 = Returns (Person_getState (p_m ?P ! nat 1 ! nat 0))"
    by (simp add: f(1))
  then have 1: "getState ?P 1 0 = Returns ''recovered''"
    by (simp add: defaults_def Person_getState_def pR_def)
  have s: "set_inf ?P 1 0 = Returns (defaults [[pS, pI], [pI, pS]] 2 0)"
    by (simp add: force_simps eval_simps)
  from accessors_in_range [OF w, of 1 0] s
  have 2: "getState (defaults [[pS, pI], [pI, pS]] 2 0) 1 0 = Returns ''infected''"
    by (simp add: f(1))
  from accessors_in_range [OF w, of 2 0]
  have 3: "getState ?P 2 0 = Undefined" by (simp add: f(1))
  from accessors_in_range [OF w, of 0 "- 1"]
  have 4: "set_inf ?P 0 (- 1) = Undefined" by (simp add: f(1))
  from w 1 s 2 3 4 show ?thesis by simp
qed

text \<open>
  The claim as stated fails on a grid of one cell: \<^verbatim>\<open>getState(1, 0)\<close> and
  \<^verbatim>\<open>set_inf(0, -1)\<close> do not raise an out-of-bounds failure; their behaviour is undefined.
\<close>

theorem accessors_counterexample:
  "Population_ctor exact 2 1 = Returns (defaults [[pS]] 1 0) \<and>
   getState (defaults [[pS]] 1 0) 1 0 = Undefined \<and>
   getState (defaults [[pS]] 1 0) 1 0 \<noteq> Throws out_of_range \<and>
   set_inf (defaults [[pS]] 1 0) 0 (- 1) = Undefined \<and>
   set_inf (defaults [[pS]] 1 0) 0 (- 1) \<noteq> Throws out_of_range"
proof -
  have "Population_ctor exact 2 1 = Returns (defaults [[pS]] 1 0)"
    using Population_ctor_defaults [of 1 2] by simp
  then show ?thesis
    by (simp add: getState_def set_inf_def in_grid_def defaults_def)
qed

section \<open>C8: the result is a function of the draws\<close>

lemma Update_same_draws:
  assumes w: "well_formed p"
    and d: "\<And>k. k < nat (p_n p) * nat (p_n p) \<Longrightarrow> d1 k = d2 k"
  shows "Update rnd d1 p = Update rnd d2 p"
proof -
  let ?N = "nat (p_n p)"
  have "p_m (Update rnd d1 p) = p_m (Update rnd d2 p)"
  proof (rule square_eqI [of ?N])
    show "square ?N (p_m (Update rnd d1 p))"
      using Update_spec(1,3) [OF w, of rnd d1] by (simp add: well_formed_def)
    show "square ?N (p_m (Update rnd d2 p))"
      using Update_spec(1,3) [OF w, of rnd d2] by (simp add: well_formed_def)
  next
    fix a b assume ab: "a < ?N" "b < ?N"
    then have "d1 (a * ?N + b) = d2 (a * ?N + b)" by (intro d cell_index_less)
    then show "p_m (Update rnd d1 p) ! a ! b = p_m (Update rnd d2 p) ! a ! b"
      by (simp add: Update_spec(10) [OF w ab])
  qed
  then show ?thesis
    by (subst Update_unfold, subst (2) Update_unfold) simp
qed

lemma run_same_draws:
  "well_formed p \<Longrightarrow> length ds1 = length ds2 \<Longrightarrow>
   (\<forall>s < length ds1. \<forall>k < nat (p_n p) * nat (p_n p). (ds1 ! s) k = (ds2 ! s) k) \<Longrightarrow>
   run rnd ds1 p = run rnd ds2 p"
proof (induction ds1 arbitrary: ds2 p)
  case Nil
  then show ?case by simp
next
  case (Cons d1 ds1)
  then obtain d2 ds2' where ds2: "ds2 = d2 # ds2'" by (cases ds2) auto
  from Cons.prems(3) have hd: "\<And>k. k < nat (p_n p) * nat (p_n p) \<Longrightarrow> d1 k = d2 k"
    unfolding ds2 by (metis length_Cons nth_Cons_0 zero_less_Suc)
  from Cons.prems(3) have tl: "\<forall>s < length ds1. \<forall>k < nat (p_n p) * nat (p_n p).
      (ds1 ! s) k = (ds2' ! s) k"
    unfolding ds2 by (metis Suc_less_eq length_Cons nth_Cons_Suc)
  have U: "Update rnd d1 p = Update rnd d2 p"
    using Cons.prems(1) hd by (rule Update_same_draws)
  have w': "well_formed (Update rnd d2 p)" using Cons.prems(1) by (simp add: Update_spec(1))
  have n': "p_n (Update rnd d2 p) = p_n p" using Cons.prems(1) by (simp add: Update_spec(3))
  from Cons.IH [OF w', of ds2'] Cons.prems(2) tl
  have "run rnd ds1 (Update rnd d2 p) = run rnd ds2' (Update rnd d2 p)"
    by (simp add: ds2 n')
  then show ?case by (simp add: ds2 U)
qed

text \<open>
  Claim C8. Two runs from the same object whose draw sequences agree, call by call, on
  the first \<open>n * n\<close> draws reach the same object after every number of calls, and so the
  same tallies. One call of \<^verbatim>\<open>Update\<close> makes exactly \<open>n * n\<close> draws, and the cell in row
  \<open>i\<close> and column \<open>j\<close> is decided by draw number \<open>i * n + j\<close> (row-major order): two
  generators that agree on that draw give the cell the same new value.
\<close>

theorem deterministic_given_draws:
  assumes "well_formed p" "length ds1 = length ds2"
    and "\<forall>s < length ds1. \<forall>k < nat (p_n p) * nat (p_n p). (ds1 ! s) k = (ds2 ! s) k"
  shows "(\<forall>m \<le> length ds1.
            run rnd (take m ds1) p = run rnd (take m ds2) p \<and>
            countStates (run rnd (take m ds1) p) = countStates (run rnd (take m ds2) p)) \<and>
         snd (update_rows rnd (p\<lparr>p_t := int32 (p_t p + 1)\<rparr>) (allowVaccination rnd p) (p_m p) d 0 0 (p_m p))
            = nat (p_n p) * nat (p_n p) \<and>
         (\<forall>i < nat (p_n p). \<forall>j < nat (p_n p).
            d1 (i * nat (p_n p) + j) = d2 (i * nat (p_n p) + j) \<longrightarrow>
            p_m (Update rnd d1 p) ! i ! j = p_m (Update rnd d2 p) ! i ! j)"
proof (intro conjI allI impI)
  fix m assume m: "m \<le> length ds1"
  have "run rnd (take m ds1) p = run rnd (take m ds2) p"
    using assms m by (intro run_same_draws) simp_all
  then show "run rnd (take m ds1) p = run rnd (take m ds2) p"
    and "countStates (run rnd (take m ds1) p) = countStates (run rnd (take m ds2) p)"
    by simp_all
next
  show "snd (update_rows rnd (p\<lparr>p_t := int32 (p_t p + 1)\<rparr>) (allowVaccination rnd p) (p_m p) d 0 0 (p_m p))
            = nat (p_n p) * nat (p_n p)"
    using assms(1) by (rule Update_spec(11))
next
  fix i j assume "i < nat (p_n p)" "j < nat (p_n p)"
    and "d1 (i * nat (p_n p) + j) = d2 (i * nat (p_n p) + j)"
  then show "p_m (Update rnd d1 p) ! i ! j = p_m (Update rnd d2 p) ! i ! j"
    by (simp add: Update_spec(10) [OF assms(1)])
qed

theorem deterministic_given_draws_witness:
  "well_formed (defaults [[pS, pI], [pR, pS]] 2 200) \<and>
   draws_upto 4 (1 / 8) 0 3 = (draws_upto 4 (1 / 8) 1 3 :: real) \<and>
   draws_upto 4 (1 / 8) 0 4 \<noteq> (draws_upto 4 (1 / 8) 1 4 :: real) \<and>
   run exact [draws_upto 4 (1 / 8) 0, draws_upto 4 (1 / 8) 0] (defaults [[pS, pI], [pR, pS]] 2 200) =
   run exact [draws_upto 4 (1 / 8) 1, draws_upto 4 (1 / 8) 1] (defaults [[pS, pI], [pR, pS]] 2 200) \<and>
   countStates (run exact [draws_upto 4 (1 / 8) 0, draws_upto 4 (1 / 8) 0]
                  (defaults [[pS, pI], [pR, pS]] 2 200)) =
   countStates (run exact [draws_upto 4 (1 / 8) 1, draws_upto 4 (1 / 8) 1]
                  (defaults [[pS, pI], [pR, pS]] 2 200)) \<and>
   snd (update_rows exact ((defaults [[pS, pI], [pR, pS]] 2 200)\<lparr>p_t := 201\<rparr>)
          (allowVaccination exact (defaults [[pS, pI], [pR, pS]] 2 200)) [[pS, pI], [pR, pS]]
          (draws_upto 4 (1 / 8) 0) 0 0 [[pS, pI], [pR, pS]]) = 4 \<and>
   p_m (Update exact (draws_upto 4 (1 / 8) 0) (defaults [[pS, pI], [pR, pS]] 2 200)) ! 1 ! 0 =
   p_m (Update exact (draws_upto 4 (1 / 8) 1) (defaults [[pS, pI], [pR, pS]] 2 200)) ! 1 ! 0"
proof -
  let ?P = "defaults [[pS, pI], [pR, pS]] 2 200"
  let ?d1 = "draws_upto 4 (1 / 8) 0 :: nat \<Rightarrow> real"
  let ?d2 = "draws_upto 4 (1 / 8) 1 :: nat \<Rightarrow> real"
  have w: "well_formed ?P"
    by (simp add: well_formed_def square_def defaults_def numeral_2_eq_2)
  have n: "nat (p_n ?P) = 2" "p_m ?P = [[pS, pI], [pR, pS]]" "p_t ?P = 200"
    by (simp_all add: defaults_def)
  have l: "length [?d1, ?d1] = length [?d2, ?d2]" by simp
  have a: "\<forall>s < length [?d1, ?d1]. \<forall>k < nat (p_n ?P) * nat (p_n ?P).
             ([?d1, ?d1] ! s) k = ([?d2, ?d2] ! s) k"
    by (simp add: n draws_upto_def nth_Cons')
  note T = deterministic_given_draws [OF w l a, of exact ?d1 ?d1 ?d2]
  from T have "\<forall>m \<le> length [?d1, ?d1].
      run exact (take m [?d1, ?d1]) ?P = run exact (take m [?d2, ?d2]) ?P \<and>
      countStates (run exact (take m [?d1, ?d1]) ?P) = countStates (run exact (take m [?d2, ?d2]) ?P)"
    by (rule conjunct1)
  from this [rule_format, of 2]
  have 1: "run exact (take 2 [?d1, ?d1]) ?P = run exact (take 2 [?d2, ?d2]) ?P"
    by simp
  from T have 2: "snd (update_rows exact (?P\<lparr>p_t := int32 (p_t ?P + 1)\<rparr>) (allowVaccination exact ?P)
      (p_m ?P) ?d1 0 0 (p_m ?P)) = nat (p_n ?P) * nat (p_n ?P)"
    by blast
  from T have "\<forall>i < nat (p_n ?P). \<forall>j < nat (p_n ?P).
            ?d1 (i * nat (p_n ?P) + j) = ?d2 (i * nat (p_n ?P) + j) \<longrightarrow>
            p_m (Update exact ?d1 ?P) ! i ! j = p_m (Update exact ?d2 ?P) ! i ! j"
    by blast
  from this [rule_format, of 1 0]
  have 3: "p_m (Update exact ?d1 ?P) ! 1 ! 0 = p_m (Update exact ?d2 ?P) ! 1 ! 0"
    by (simp add: n draws_upto_def)
  have 4: "?d1 3 = ?d2 3" "?d1 4 \<noteq> ?d2 4" by (simp_all add: draws_upto_def)
  from 1 have r1: "run exact [?d1, ?d1] ?P = run exact [?d2, ?d2] ?P" by simp
  from 2 have r2: "snd (update_rows exact (?P\<lparr>p_t := 201\<rparr>) (allowVaccination exact ?P)
      [[pS, pI], [pR, pS]] ?d1 0 0 [[pS, pI], [pR, pS]]) = 4"
    by (simp add: n int32_def)
  show ?thesis using w 4 r1 r2 3 by simp
qed

section \<open>C9: the day counter and the frame of the mutators\<close>









section \<open>C10: the gate is computed once, from the grid before the step\<close>

lemma overshoot:
  "perform_all exact (replicate 199 (Advance (const_draws (1 / 2))))
     (defaults [[pS, pS], [pS, pS]] 2 0) = Returns (defaults [[pS, pS], [pS, pS]] 2 199)"
  "Update exact (const_draws (1 / 2048)) (defaults [[pS, pS], [pS, pS]] 2 199) =
     defaults [[pV, pV], [pV, pV]] 2 200"
  "vaccinated (countStates (defaults [[pS, pS], [pS, pS]] 2 199)) = 0"
  "vaccinated (countStates (defaults [[pV, pV], [pV, pV]] 2 200)) = 4"
proof -
  show "perform_all exact (replicate 199 (Advance (const_draws (1 / 2))))
     (defaults [[pS, pS], [pS, pS]] 2 0) = Returns (defaults [[pS, pS], [pS, pS]] 2 199)"
    using quiet_run_2 [of 199] by (simp add: INT_MAX_def)
  show "Update exact (const_draws (1 / 2048)) (defaults [[pS, pS], [pS, pS]] 2 199) =
     defaults [[pV, pV], [pV, pV]] 2 200"
    by (simp add: eval_simps)
  show "vaccinated (countStates (defaults [[pS, pS], [pS, pS]] 2 199)) = 0"
    by (simp add: eval_simps)
  show "vaccinated (countStates (defaults [[pV, pV], [pV, pV]] 2 200)) = 4"
    by (simp add: eval_simps)
qed

text \<open>
  Claim C10. In one call of \<^verbatim>\<open>Update\<close> every cell is transformed with the same value of
  \<^verbatim>\<open>allowVaccination\<close>, the one computed from the tallies of the grid before the call. So
  the ceiling \<open>1 - rvh\<close> is not an invariant of the state: there are a grid, reachable from
  the constructor, and draws for which the vaccinated fraction is below \<open>1 - rvh\<close> before a
  call and strictly above it after.
\<close>

theorem gate_computed_once:
  "(well_formed p \<longrightarrow>
      (\<forall>i < nat (p_n p). \<forall>j < nat (p_n p).
         p_m (Update rnd draws p) ! i ! j =
           cell_step rnd (p\<lparr>p_t := int32 (p_t p + 1)\<rparr>) (allowVaccination rnd p) (p_m p)
             (draws (i * nat (p_n p) + j)) i j (p_m p ! i ! j))) \<and>
   (allowVaccination rnd p \<longleftrightarrow>
      rnd (of_int (vaccinated (countStates p))) / rnd (of_int (int32 (p_n p * p_n p)))
        < 1 - p_rvh p) \<and>
   (\<exists>avail n as q0 q d.
      Population_ctor exact avail n = Returns q0 \<and> perform_all exact as q0 = Returns q \<and>
      of_int (vaccinated (countStates q)) / of_int (p_n q * p_n q) < 1 - p_rvh q \<and>
      1 - p_rvh q <
        of_int (vaccinated (countStates (Update exact d q))) / of_int (p_n q * p_n q))"
proof (intro conjI impI allI)
  fix i j assume "well_formed p" "i < nat (p_n p)" "j < nat (p_n p)"
  then show "p_m (Update rnd draws p) ! i ! j =
           cell_step rnd (p\<lparr>p_t := int32 (p_t p + 1)\<rparr>) (allowVaccination rnd p) (p_m p)
             (draws (i * nat (p_n p) + j)) i j (p_m p ! i ! j)"
    by (rule Update_spec(10))
next
  show "allowVaccination rnd p \<longleftrightarrow>
      rnd (of_int (vaccinated (countStates p))) / rnd (of_int (int32 (p_n p * p_n p)))
        < 1 - p_rvh p"
    by (simp add: allowVaccination_def Let_def)
next
  have c: "Population_ctor exact 6 2 = Returns (defaults [[pS, pS], [pS, pS]] 2 0)"
    using Population_ctor_defaults [of 2 6] by (simp add: numeral_2_eq_2)
  have f: "p_n (defaults g n t) = n" "p_rvh (defaults g n t) = 1 / 5" for g n t
    by (simp_all add: defaults_def)
  show "\<exists>avail n as q0 q d.
      Population_ctor exact avail n = Returns q0 \<and> perform_all exact as q0 = Returns q \<and>
      of_int (vaccinated (countStates q)) / of_int (p_n q * p_n q) < 1 - p_rvh q \<and>
      1 - p_rvh q <
        of_int (vaccinated (countStates (Update exact d q))) / of_int (p_n q * p_n q)"
    apply (rule exI [of _ 6])
    apply (rule exI [of _ 2])
    apply (rule exI [of _ "replicate 199 (Advance (const_draws (1 / 2)))"])
    apply (rule exI [of _ "defaults [[pS, pS], [pS, pS]] 2 0"])
    apply (rule exI [of _ "defaults [[pS, pS], [pS, pS]] 2 199"])
    apply (rule exI [of _ "const_draws (1 / 2048)"])
    apply (simp add: c overshoot f)
    done
qed

theorem gate_computed_once_witness:
  "well_formed (defaults [[pS, pS], [pS, pS]] 2 199) \<and>
   allowVaccination exact (defaults [[pS, pS], [pS, pS]] 2 199) \<and>
   vaccinated (countStates (defaults [[pS, pS], [pS, pS]] 2 199)) = 0 \<and>
   p_m (Update exact (const_draws (1 / 2048)) (defaults [[pS, pS], [pS, pS]] 2 199)) ! 0 ! 0 = pV \<and>
   p_m (Update exact (const_draws (1 / 2048)) (defaults [[pS, pS], [pS, pS]] 2 199)) ! 0 ! 1 = pV \<and>
   p_m (Update exact (const_draws (1 / 2048)) (defaults [[pS, pS], [pS, pS]] 2 199)) ! 1 ! 0 = pV \<and>
   p_m (Update exact (const_draws (1 / 2048)) (defaults [[pS, pS], [pS, pS]] 2 199)) ! 1 ! 1 = pV \<and>
   vaccinated (countStates
     (Update exact (const_draws (1 / 2048)) (defaults [[pS, pS], [pS, pS]] 2 199))) = 4 \<and>
   (0 :: real) / 4 < 1 - 1 / 5 \<and> (1 - 1 / 5 :: real) < 4 / 4"
proof -
  let ?P = "defaults [[pS, pS], [pS, pS]] 2 199"
  let ?d = "const_draws (1 / 2048) :: nat \<Rightarrow> real"
  have w: "well_formed ?P"
    by (simp add: well_formed_def square_def defaults_def numeral_2_eq_2)
  have a: "allowVaccination exact ?P" by (simp add: eval_simps)
  have n: "nat (p_n ?P) = 2" by (simp add: defaults_def)
  have r: "[[pS, pS], [pS, pS]] = replicate 2 (replicate 2 pS)" by (simp add: numeral_2_eq_2)
  from gate_computed_once [of ?P exact ?d] w
  have cells: "\<forall>i < nat (p_n ?P). \<forall>j < nat (p_n ?P).
         p_m (Update exact ?d ?P) ! i ! j =
           cell_step exact (?P\<lparr>p_t := int32 (p_t ?P + 1)\<rparr>) (allowVaccination exact ?P) (p_m ?P)
             (?d (i * nat (p_n ?P) + j)) i j (p_m ?P ! i ! j)"
    by blast
  have e: "cell_step exact (?P\<lparr>p_t := int32 (p_t ?P + 1)\<rparr>) True (p_m ?P) (1 / 2048) i j pS = pV"
    if "i < 2" "j < 2" for i j
  proof -
    have "infected_neighbours (int 2) (replicate 2 (replicate 2 pS)) i j = 0"
      by (rule no_infected_neighbours [of 2]) (use that in \<open>simp_all add: pS_def\<close>)
    moreover have "replicate 2 (replicate 2 pS) ! i ! j = pS"
      using that by simp
    ultimately show ?thesis
      unfolding r
      by (simp add: cell_step_def Let_def defaults_def Person_getState_def pS_def pV_def
          Person_set_vac_def exact_def int32_def)
  qed
  have g: "p_m ?P ! i ! j = pS" if "i < 2" "j < 2" for i j
    unfolding r using that by (simp add: defaults_def)
  have c: "p_m (Update exact ?d ?P) ! i ! j = pV" if "i < 2" "j < 2" for i j
    using cells [rule_format, of i j] that by (simp add: n a const_draws_def e g)
  have v: "vaccinated (countStates (Update exact ?d ?P)) = 4"
    by (simp add: overshoot)
  from w a overshoot(3) c [of 0 0] c [of 0 1] c [of 1 0] c [of 1 1] v show ?thesis by simp
qed

end
